theory Spec2Isabelle
  imports Main
begin

section \<open>Strings\<close>

text \<open>
  A JavaScript string is a sequence of UTF-16 code units, and the program compares, splits
  and matches strings code unit by code unit (its regular expression has no \<open>u\<close> flag). A
  code unit is modelled by its number, from 0 to 65535: the program does no arithmetic on
  code units, and what is proved of every list of integers holds of every string. The literals of the program are ASCII text: \<open>str\<close>
  gives the code units of such a literal.
\<close>

type_synonym unit16 = int

type_synonym jstring = "unit16 list"

definition uc :: "char \<Rightarrow> unit16" where
  "uc c = of_char c"

definition str :: "string \<Rightarrow> jstring" where
  "str s = map uc s"

text \<open>
  The white space of \<open>\s\<close> and of \<open>trim\<close> is the same set: \<open>WhiteSpace\<close> and \<open>LineTerminator\<close>
  of ECMAScript, that is TAB, LF, VT, FF, CR, the space, the no-break space U+00A0, the
  byte order mark U+FEFF, the separators U+2028 and U+2029, and the other code points of
  the category \<open>Zs\<close>: U+1680, U+2000 to U+200A, U+202F, U+205F and U+3000.
\<close>

definition is_space :: "unit16 \<Rightarrow> bool" where
  "is_space c =
     (c \<in> {0x09, 0x0A, 0x0B, 0x0C, 0x0D, 0x20, 0xA0, 0x1680, 0x2028, 0x2029, 0x202F, 0x205F,
           0x3000, 0xFEFF}
      \<or> (0x2000 \<le> c \<and> c \<le> 0x200A))"

text \<open>The class \<^verbatim>\<open>[a-f0-9]\<close>.\<close>

definition is_hex :: "unit16 \<Rightarrow> bool" where
  "is_hex c = (c \<in> set (str ''abcdef0123456789''))"

text \<open>\<open>String.prototype.trim\<close>: white space is removed at both ends.\<close>

definition trim :: "jstring \<Rightarrow> jstring" where
  "trim s = rev (dropWhile is_space (rev (dropWhile is_space s)))"

text \<open>\<open>s.includes(sub)\<close>: \<open>sub\<close> occurs in \<open>s\<close> as a contiguous substring.\<close>

fun includes_str :: "jstring \<Rightarrow> jstring \<Rightarrow> bool" where
  "includes_str [] sub = (sub = [])"
| "includes_str (c # cs) sub = (take (length sub) (c # cs) = sub \<or> includes_str cs sub)"

text \<open>\<open>s.split(d)\<close> for a one-character separator: the empty string gives one empty piece.\<close>

fun split_on :: "unit16 \<Rightarrow> jstring \<Rightarrow> jstring list" where
  "split_on d [] = [[]]"
| "split_on d (c # cs) =
     (if c = d then [] # split_on d cs
      else (case split_on d cs of
              [] \<Rightarrow> [[c]]
            | l # ls \<Rightarrow> (c # l) # ls))"

text \<open>
  A value used as a condition: \<open>null\<close>, \<open>undefined\<close> (both \<open>None\<close>) and the empty string are
  falsy, every other string is truthy.
\<close>

definition truthy :: "jstring option \<Rightarrow> bool" where
  "truthy v = (case v of None \<Rightarrow> False | Some s \<Rightarrow> s \<noteq> [])"

section \<open>Regular expressions\<close>

text \<open>
  The constructs of \<open>branchLineRegex\<close>, with the backtracking semantics of ECMAScript. The
  matcher \<open>ms r st\<close> lists, in the order in which backtracking tries them, the states in
  which a match of \<open>r\<close> started in \<open>st\<close> can end; a state is the index reached, the rest of
  the input and the captures so far. A greedy quantifier lists the longer matches first,
  an iteration of \<open>*\<close> that consumes nothing is rejected, and \<open>^\<close> holds at index 0 only (the
  expression has no \<open>m\<close> flag).
\<close>
datatype regex =
    Bol
  | Chr unit16
  | Cls "unit16 \<Rightarrow> bool"
  | Seq regex regex
  | Opt regex
  | Star regex
  | Group nat regex

type_synonym captures = "nat \<Rightarrow> jstring option"
type_synonym mstate = "nat \<times> jstring \<times> captures"

function ms :: "regex \<Rightarrow> mstate \<Rightarrow> mstate list" where
  "ms Bol st = (if fst st = 0 then [st] else [])"
| "ms (Chr a) st =
     (case fst (snd st) of
        [] \<Rightarrow> []
      | x # xs \<Rightarrow> if x = a then [(Suc (fst st), xs, snd (snd st))] else [])"
| "ms (Cls P) st =
     (case fst (snd st) of
        [] \<Rightarrow> []
      | x # xs \<Rightarrow> if P x then [(Suc (fst st), xs, snd (snd st))] else [])"
| "ms (Seq r1 r2) st = concat (map (ms r2) (ms r1 st))"
| "ms (Opt r) st = ms r st @ [st]"
| "ms (Star r) st =
     concat (map (\<lambda>st'. if length (fst (snd st')) < length (fst (snd st))
                          then ms (Star r) st' else [])
                 (ms r st)) @ [st]"
| "ms (Group n r) st =
     map (\<lambda>st'. (fst st', fst (snd st'),
                 (snd (snd st'))(n \<mapsto> take (fst st' - fst st) (fst (snd st)))))
         (ms r st)"
  by pat_completeness auto
termination
  by (relation "measures [\<lambda>(r, st). size r, \<lambda>(r, st). length (fst (snd st))]") auto

text \<open>\<open>r+\<close> is \<open>r\<close> followed by \<open>r*\<close> (for a body with no capture group of its own).\<close>

definition Plus :: "regex \<Rightarrow> regex" where
  "Plus r = Seq r (Star r)"

text \<open>
  \<open>RegExp.prototype.exec\<close> without the \<open>g\<close> and \<open>y\<close> flags: the first start index, from 0 on,
  at which the expression matches, and there the first match in backtracking order.
\<close>

fun regex_exec_from :: "regex \<Rightarrow> nat \<Rightarrow> jstring \<Rightarrow> captures option" where
  "regex_exec_from r i s =
     (case ms r (i, s, Map.empty) of
        st # _ \<Rightarrow> Some (snd (snd st))
      | [] \<Rightarrow> (case s of [] \<Rightarrow> None | _ # xs \<Rightarrow> regex_exec_from r (Suc i) xs))"

definition str_match :: "jstring \<Rightarrow> regex \<Rightarrow> captures option" where
  "str_match s r = regex_exec_from r 0 s"

text \<open>\<^verbatim>\<open>/^\*?\s*(\S+)\s+[a-f0-9]+\s+(\[([^\]]+)\])?/\<close>\<close>

definition branchLineRegex :: regex where
  "branchLineRegex =
     Seq Bol
    (Seq (Opt (Chr (uc CHR ''*'')))
    (Seq (Star (Cls is_space))
    (Seq (Group 1 (Plus (Cls (\<lambda>c. \<not> is_space c))))
    (Seq (Plus (Cls is_space))
    (Seq (Plus (Cls is_hex))
    (Seq (Plus (Cls is_space))
         (Opt (Group 2 (Seq (Chr (uc CHR ''[''))
                       (Seq (Group 3 (Plus (Cls (\<lambda>c. c \<noteq> (uc CHR '']'')))))
                            (Chr (uc CHR '']''))))))))))))"

section \<open>The process and its surroundings\<close>

text \<open>
  The subprocesses the tool starts through \<open>child_process.exec\<close>:
  \<^verbatim>\<open>git rev-parse --abbrev-ref HEAD\<close>, \<^verbatim>\<open>git branch --list <name>\<close>, \<^verbatim>\<open>git branch -vv\<close>,
  \<^verbatim>\<open>git branch -d <name>\<close> (\<open>GitBranchDelete False\<close>) or \<^verbatim>\<open>git branch -D <name>\<close>
  (\<open>GitBranchDelete True\<close>), and \<^verbatim>\<open>git checkout <name>\<close>.
\<close>

datatype command =
    GitRevParseHead
  | GitBranchList jstring
  | GitBranchVV
  | GitBranchDelete bool jstring
  | GitCheckout jstring

text \<open>What the callback of \<open>exec\<close> receives: whether \<open>error\<close> is set, \<open>stdout\<close> and \<open>stderr\<close>.\<close>

record exec_result =
  failed :: bool
  stdout :: jstring
  stderr :: jstring

text \<open>The questions asked through \<open>prompt.get\<close>, by the \<open>name\<close> of their schema.\<close>

datatype prompt = PDefault | POption | PSwitch | PConfirm | PForce

text \<open>An \<open>err\<close> handed to a callback: an \<open>Error\<close> made by the tool, or the error of a prompt.\<close>

datatype failure = Error jstring | PromptFailure

text \<open>
  What a run does to the outside, in the order in which it does it: a subprocess with its
  result, a question with its answer (\<open>None\<close> when the prompt fails), and the lines written
  by \<open>console.log\<close> and \<open>console.error\<close> (the latter with the \<open>err\<close> printed after the text,
  if any).
\<close>

datatype event =
    Ran command exec_result
  | Asked prompt "jstring option"
  | AskedNumber "int option"
  | ConsoleLog jstring
  | ConsoleError jstring "failure option"

text \<open>
  The surroundings are a parameter: a state \<open>'w\<close> of the outside world (the repository and
  the user), the presence of the \<^verbatim>\<open>.git\<close> entry, how the world answers a subprocess and
  a question, and the case conversion of the runtime on text outside ASCII. Nothing is
  assumed of them: the world may change between any two calls.
\<close>

record 'w env =
  gitDirExists :: "'w \<Rightarrow> bool"
  exec :: "command \<Rightarrow> 'w \<Rightarrow> exec_result \<times> 'w"
  answer :: "prompt \<Rightarrow> 'w \<Rightarrow> jstring option \<times> 'w"
  answerNumber :: "'w \<Rightarrow> int option \<times> 'w"
  lowerCase :: "jstring \<Rightarrow> jstring"

text \<open>
  \<open>String.prototype.toLowerCase\<close> converts by the case mappings of the Unicode tables that
  the runtime carries. On ASCII text every version of the tables maps \<open>A\<close> to \<open>Z\<close> to \<open>a\<close> to
  \<open>z\<close> and leaves the rest as it is; on any other text the conversion is the one of the
  surroundings, whatever it is.
\<close>

definition ascii_unit :: "unit16 \<Rightarrow> bool" where
  "ascii_unit c = (0 \<le> c \<and> c < 0x80)"

definition lower_ascii :: "unit16 \<Rightarrow> unit16" where
  "lower_ascii c = (if 0x41 \<le> c \<and> c \<le> 0x5A then c + 0x20 else c)"

definition toLowerCase :: "'w env \<Rightarrow> jstring \<Rightarrow> jstring" where
  "toLowerCase E s = (if list_all ascii_unit s then map lower_ascii s else lowerCase E s)"

text \<open>The state of a run: the world, what was done so far, and the global flag of the script.\<close>

record 'w state =
  world :: 'w
  trace :: "event list"
  disclaimerConfirmed :: bool

definition run_exec :: "'w env \<Rightarrow> command \<Rightarrow> 'w state \<Rightarrow> exec_result \<times> 'w state" where
  "run_exec E cmd st =
     (case exec E cmd (world st) of
        (r, w') \<Rightarrow> (r, st\<lparr>world := w', trace := trace st @ [Ran cmd r]\<rparr>))"

definition promptGet :: "'w env \<Rightarrow> prompt \<Rightarrow> 'w state \<Rightarrow> jstring option \<times> 'w state" where
  "promptGet E p st =
     (case answer E p (world st) of
        (a, w') \<Rightarrow> (a, st\<lparr>world := w', trace := trace st @ [Asked p a]\<rparr>))"

definition promptGetNumber :: "'w env \<Rightarrow> 'w state \<Rightarrow> int option \<times> 'w state" where
  "promptGetNumber E st =
     (case answerNumber E (world st) of
        (a, w') \<Rightarrow> (a, st\<lparr>world := w', trace := trace st @ [AskedNumber a]\<rparr>))"

definition consoleLog :: "jstring \<Rightarrow> 'w state \<Rightarrow> 'w state" where
  "consoleLog msg st = st\<lparr>trace := trace st @ [ConsoleLog msg]\<rparr>"

definition consoleError :: "jstring \<Rightarrow> failure option \<Rightarrow> 'w state \<Rightarrow> 'w state" where
  "consoleError msg err st = st\<lparr>trace := trace st @ [ConsoleError msg err]\<rparr>"

text \<open>A name between single quotes, as the messages print it.\<close>

definition quoted :: "jstring \<Rightarrow> jstring" where
  "quoted s = [0x27] @ s @ [0x27]"

section \<open>Git repository checks\<close>

definition isGitRepo :: "'w env \<Rightarrow> 'w state \<Rightarrow> bool" where
  "isGitRepo E st = gitDirExists E (world st)"

definition currentBranchFailure :: failure where
  "currentBranchFailure =
     Error (str ''Failed to get current branch. Are you sure this is a Git repository?'')"

definition getCurrentBranch :: "'w env \<Rightarrow> 'w state \<Rightarrow> (failure + jstring) \<times> 'w state" where
  "getCurrentBranch E st =
     (case run_exec E GitRevParseHead st of
        (r, st1) \<Rightarrow>
          if failed r
          then (Inl currentBranchFailure, st1)
          else (Inr (trim (stdout r)), st1))"

definition branchExists :: "'w env \<Rightarrow> jstring \<Rightarrow> 'w state \<Rightarrow> bool \<times> 'w state" where
  "branchExists E branchName st =
     (case run_exec E (GitBranchList branchName) st of
        (r, st1) \<Rightarrow> if failed r then (False, st1) else (trim (stdout r) \<noteq> [], st1))"

text \<open>The result is \<open>Inr None\<close> for \<open>callback(null, null)\<close>.\<close>

definition getDefaultMainBranch ::
  "'w env \<Rightarrow> 'w state \<Rightarrow> (failure + jstring option) \<times> 'w state" where
  "getDefaultMainBranch E st =
     (case branchExists E (str ''main'') st of
        (mainExists, st1) \<Rightarrow>
     (case branchExists E (str ''master'') st1 of
        (masterExists, st2) \<Rightarrow>
          if mainExists \<and> masterExists then
            (case promptGet E PDefault st2 of
               (None, st3) \<Rightarrow> (Inl PromptFailure, st3)
             | (Some result, st3) \<Rightarrow> (Inr (Some (toLowerCase E result)), st3))
          else if mainExists then (Inr (Some (str ''main'')), st2)
          else if masterExists then (Inr (Some (str ''master'')), st2)
          else (Inr None, st2)))"

section \<open>Listing the branches\<close>

text \<open>
  The body of \<open>lines.forEach\<close>: the names one line adds to \<open>detachedBranches\<close>. Group 1 is
  not optional, so it is set whenever the line matches (lemma \<open>branchLine_group1\<close>).
\<close>

definition detachedOfLine :: "jstring \<Rightarrow> jstring list" where
  "detachedOfLine line =
     (case str_match line branchLineRegex of
        None \<Rightarrow> []
      | Some m \<Rightarrow>
          (case m 1 of
             None \<Rightarrow> []
           | Some branchName \<Rightarrow>
               let trackingInfo = m 3 in
               if \<not> truthy trackingInfo \<or> includes_str (the trackingInfo) (str ''gone'')
               then [branchName] else []))"

definition getDetachedBranches ::
  "'w env \<Rightarrow> 'w state \<Rightarrow> (failure + jstring list) \<times> 'w state" where
  "getDetachedBranches E st =
     (case run_exec E GitBranchVV st of
        (r, st1) \<Rightarrow>
          if failed r then (Inl (Error ((str ''Error running '') @ quoted (str ''git branch -vv'') @ (str ''.''))), st1)
          else (Inr (concat (map detachedOfLine (split_on 0x0A (stdout r)))), st1))"

section \<open>Deleting branches\<close>

text \<open>
  \<open>deleteNext\<close> is the inner function of \<open>deleteBranches\<close>: its first list is what is left of
  \<open>branches\<close> from \<open>index\<close> on, its second list is \<open>failedBranches\<close>.
\<close>

definition skippingMessage :: "jstring \<Rightarrow> jstring" where
  "skippingMessage branch = (str ''Skipping current branch: '') @ branch"

definition unmergedMessage :: "jstring \<Rightarrow> jstring" where
  "unmergedMessage branch = (str ''Unable to delete '') @ branch @ (str '' as it is not fully merged.'')"

definition errorMessage :: "jstring \<Rightarrow> jstring \<Rightarrow> jstring" where
  "errorMessage branch err = (str ''Error deleting branch '') @ branch @ (str '': '') @ trim err"

definition deletedMessage :: "jstring \<Rightarrow> jstring" where
  "deletedMessage branch = (str ''Deleted branch '') @ branch"

fun deleteNext ::
  "'w env \<Rightarrow> jstring list \<Rightarrow> bool \<Rightarrow> jstring list \<Rightarrow> 'w state
     \<Rightarrow> (failure + jstring list) \<times> 'w state" where
  "deleteNext E [] forced failedBranches st = (Inr failedBranches, st)"
| "deleteNext E (branch # rest) forced failedBranches st =
     (case getCurrentBranch E st of
        (Inl err, st1) \<Rightarrow> (Inl err, st1)
      | (Inr currentBranch, st1) \<Rightarrow>
          if branch = currentBranch then
            deleteNext E rest forced failedBranches (consoleLog (skippingMessage branch) st1)
          else
            (case run_exec E (GitBranchDelete forced branch) st1 of
               (r, st2) \<Rightarrow>
                 if failed r then
                   if \<not> forced \<and> includes_str (stderr r) (str ''not fully merged'') then
                     deleteNext E rest forced (failedBranches @ [branch])
                       (consoleError (unmergedMessage branch) None st2)
                   else
                     deleteNext E rest forced failedBranches
                       (consoleError (errorMessage branch (stderr r)) None st2)
                 else
                   deleteNext E rest forced failedBranches
                     (consoleLog (deletedMessage branch) st2)))"

definition deleteBranches ::
  "'w env \<Rightarrow> jstring list \<Rightarrow> bool \<Rightarrow> 'w state \<Rightarrow> (failure + jstring list) \<times> 'w state" where
  "deleteBranches E branches forced st = deleteNext E branches forced [] st"

section \<open>The check before the cleanup\<close>

text \<open>The test \<^verbatim>\<open>a.toLowerCase() === 'yes' || a.toLowerCase() === 'y'\<close> on an answer.\<close>

definition affirmative :: "'w env \<Rightarrow> jstring \<Rightarrow> bool" where
  "affirmative E a = (toLowerCase E a = (str ''yes'') \<or> toLowerCase E a = (str ''y''))"

definition notOnDefaultMessage :: "jstring \<Rightarrow> jstring \<Rightarrow> jstring" where
  "notOnDefaultMessage defaultMain currentBranch =
     (str ''You are not currently on the '') @ quoted defaultMain
       @ (str '' branch. (Current branch: '') @ quoted currentBranch @ (str '')'')"

definition switchFailure :: "jstring \<Rightarrow> jstring \<Rightarrow> failure" where
  "switchFailure defaultMain err =
     Error ((str ''Failed to switch to '') @ defaultMain @ (str '': '') @ trim err)"

definition switchedMessage :: "jstring \<Rightarrow> jstring" where
  "switchedMessage defaultMain = (str ''Switched to '') @ defaultMain @ (str ''.'')"

text \<open>
  The first test is \<^verbatim>\<open>if (!defaultMain)\<close>: past it \<open>defaultMain\<close> is a string, \<open>dm\<close> below.
\<close>

definition preCleanupCheck ::
  "'w env \<Rightarrow> jstring list \<Rightarrow> jstring option \<Rightarrow> 'w state
     \<Rightarrow> (failure + jstring list) \<times> 'w state" where
  "preCleanupCheck E branchesToDelete defaultMain st =
     (case (if truthy defaultMain then defaultMain else None) of
        None \<Rightarrow> (Inr branchesToDelete, st)
      | Some dm \<Rightarrow>
        (case getCurrentBranch E st of
           (Inl err, st1) \<Rightarrow> (Inl err, st1)
         | (Inr currentBranch, st1) \<Rightarrow>
             if toLowerCase E currentBranch = toLowerCase E dm
             then (Inr branchesToDelete, st1)
             else
               (case promptGet E PSwitch
                       (consoleLog (notOnDefaultMessage dm currentBranch) st1) of
                  (None, st2) \<Rightarrow> (Inl PromptFailure, st2)
                | (Some switch, st2) \<Rightarrow>
                    if affirmative E switch then
                      (case run_exec E (GitCheckout dm) st2 of
                         (r, st3) \<Rightarrow>
                           if failed r then (Inl (switchFailure dm (stderr r)), st3)
                           else (Inr branchesToDelete, consoleLog (switchedMessage dm) st3))
                    else
                      (Inr (filter (\<lambda>b. toLowerCase E b \<noteq> toLowerCase E currentBranch)
                              branchesToDelete), st2))))"

section \<open>The disclaimer\<close>

definition warningMessage :: jstring where
  "warningMessage =
     [0x1B] @ (str ''[31m'') @ [0x1B] @ (str ''[1m'')
     @ (str ''WARNING: Branches deleted locally cannot be recovered. If you have any local unsaved work that has not been pushed to a remote repository, IT WILL BE LOST. Use this tool at your own risk. The maintainers assume no responsibility for any data loss. Always review the branches marked for deletion before confirming the cleanup process.'')
     @ [0x1B] @ (str ''[0m'')"

text \<open>
  The result is \<open>Some code\<close> when the function ends the process with \<open>process.exit(code)\<close>,
  and \<open>None\<close> when it calls its callback.
\<close>

definition confirmDisclaimer :: "'w env \<Rightarrow> 'w state \<Rightarrow> int option \<times> 'w state" where
  "confirmDisclaimer E st =
     (if disclaimerConfirmed st then (None, st)
      else
        (case promptGet E PConfirm (consoleLog warningMessage st) of
           (None, st1) \<Rightarrow> (Some 1, consoleError (str ''Prompt error:'') (Some PromptFailure) st1)
         | (Some confirm, st1) \<Rightarrow>
             if affirmative E confirm then (None, st1\<lparr>disclaimerConfirmed := True\<rparr>)
             else (Some 0, consoleLog (str ''Cleanup operation cancelled by user.'') st1)))"

section \<open>The main script\<close>

text \<open>
  \<open>main\<close> is a chain of nested callbacks; each is a function here, named after the call
  whose result it receives. The result of each is the code given to \<open>process.exit\<close>, or
  \<open>None\<close> when the chain ends without a call of it.
\<close>

text \<open>The callback of the forced deletion (of option 2, and of the retry).\<close>

definition main_forced_done ::
  "(failure + jstring list) \<times> 'w state \<Rightarrow> int option \<times> 'w state" where
  "main_forced_done res =
     (case res of
        (Inl err, st) \<Rightarrow> (Some 1, consoleError (str ''Error during forced branch deletion:'') (Some err) st)
      | (Inr _, st) \<Rightarrow> (Some 0, consoleLog (str ''Forced deletion completed.'') st))"

text \<open>The callback of the safe deletion (of options 1 and 3).\<close>

definition main_safe_done ::
  "'w env \<Rightarrow> (failure + jstring list) \<times> 'w state \<Rightarrow> int option \<times> 'w state" where
  "main_safe_done E res =
     (case res of
        (Inl err, st) \<Rightarrow> (Some 1, consoleError (str ''Error during branch deletion:'') (Some err) st)
      | (Inr failedBranches, st) \<Rightarrow>
          if length failedBranches > 0 then
            (case promptGet E PForce st of
               (None, st1) \<Rightarrow> (Some 1, consoleError (str ''Prompt error:'') (Some PromptFailure) st1)
             | (Some force, st1) \<Rightarrow>
                 if affirmative E force
                 then main_forced_done (deleteBranches E failedBranches True st1)
                 else (Some 0, consoleLog (str ''Cleanup operation completed with safe deletion.'') st1))
          else (Some 0, consoleLog (str ''Cleanup operation completed.'') st))"

text \<open>The callback of \<open>confirmDisclaimer\<close>.\<close>

definition main_confirmed ::
  "'w env \<Rightarrow> int \<Rightarrow> jstring list \<Rightarrow> 'w state \<Rightarrow> int option \<times> 'w state" where
  "main_confirmed E option finalBranchesToDelete st =
     (if option = 1 \<or> option = 3 then
        main_safe_done E (deleteBranches E finalBranchesToDelete False st)
      else if option = 2 then
        main_forced_done (deleteBranches E finalBranchesToDelete True st)
      else (None, st))"

text \<open>The callback of \<open>preCleanupCheck\<close>.\<close>

definition main_checked ::
  "'w env \<Rightarrow> int \<Rightarrow> (failure + jstring list) \<times> 'w state \<Rightarrow> int option \<times> 'w state" where
  "main_checked E option res =
     (case res of
        (Inl err, st) \<Rightarrow> (Some 1, consoleError (str ''Error during pre-cleanup check:'') (Some err) st)
      | (Inr finalBranchesToDelete, st) \<Rightarrow>
          if length finalBranchesToDelete = 0 then
            (Some 0, consoleLog (str ''No branches available to delete after pre-cleanup adjustments.'') st)
          else
            (case confirmDisclaimer E st of
               (Some code, st1) \<Rightarrow> (Some code, st1)
             | (None, st1) \<Rightarrow> main_confirmed E option finalBranchesToDelete st1))"

text \<open>The callback of the prompt for the option.\<close>

definition main_option ::
  "'w env \<Rightarrow> jstring option \<Rightarrow> jstring list \<Rightarrow> int option \<times> 'w state
     \<Rightarrow> int option \<times> 'w state" where
  "main_option E defaultMain branches res =
     (case res of
        (None, st) \<Rightarrow> (Some 1, consoleError (str ''Prompt error:'') (Some PromptFailure) st)
      | (Some option, st) \<Rightarrow>
          if option = 4 then (Some 0, consoleLog (str ''Operation cancelled.'') st)
          else if option = 3 \<and> truthy defaultMain then
            (let branchesToDelete =
                   filter (\<lambda>b. toLowerCase E b \<noteq> toLowerCase E (the defaultMain)) branches
             in if length branchesToDelete = 0 then
                  (Some 0, consoleLog ((str ''No branches available to delete after filtering out '')
                                         @ quoted (the defaultMain) @ (str ''.'')) st)
                else main_checked E option (preCleanupCheck E branchesToDelete defaultMain st))
          else main_checked E option (preCleanupCheck E branches defaultMain st))"

text \<open>What is printed before the prompt for the option: the branches, then the options.\<close>

definition bullet :: jstring where
  "bullet = [0x2022]"

definition presentOptions :: "jstring option \<Rightarrow> jstring list \<Rightarrow> 'w state \<Rightarrow> 'w state" where
  "presentOptions defaultMain branches st =
     (let st1 = consoleLog
                  ((str ''The following local branches have no active upstream branch (or their upstream is gone):'')
                     @ [0x0A]) st;
          st2 = fold (\<lambda>b. consoleLog ((str ''  '') @ bullet @ (str '' '') @ b)) branches st1;
          st3 = consoleLog [] st2;
          st4 = consoleLog (str ''Choose one of the following options:'') st3;
          st5 = consoleLog (str ''  1. Delete all detached local branches (safe delete)'') st4;
          st6 = consoleLog (str ''  2. Delete all detached local branches (forced delete)'') st5;
          st7 = (if truthy defaultMain
                 then consoleLog ((str ''  3. Delete all such local branches except '')
                                    @ quoted (the defaultMain) @ (str '' (safe delete)'')) st6
                 else consoleLog ((str ''  3. Delete all such local branches except '')
                                    @ quoted (str ''main/master'') @ (str '' (safe delete)'')) st6)
      in consoleLog (str ''  4. Cancel'') st7)"

definition noStaleMessage :: jstring where
  "noStaleMessage = (str ''No local branches with missing or gone upstreams were found.'')"

text \<open>The callback of \<open>getDetachedBranches\<close>.\<close>

definition main_listed ::
  "'w env \<Rightarrow> jstring option \<Rightarrow> (failure + jstring list) \<times> 'w state \<Rightarrow> int option \<times> 'w state" where
  "main_listed E defaultMain res =
     (case res of
        (Inl err, st) \<Rightarrow>
          (Some 1, consoleError (case err of Error message \<Rightarrow> message | PromptFailure \<Rightarrow> []) None st)
      | (Inr branches, st) \<Rightarrow>
          if length branches = 0 then
            (Some 0, consoleLog noStaleMessage st)
          else
            main_option E defaultMain branches
              (promptGetNumber E (presentOptions defaultMain branches st)))"

text \<open>The callback of \<open>getDefaultMainBranch\<close>.\<close>

definition main_default ::
  "'w env \<Rightarrow> (failure + jstring option) \<times> 'w state \<Rightarrow> int option \<times> 'w state" where
  "main_default E res =
     (case res of
        (Inl err, st) \<Rightarrow> (Some 1, consoleError (str ''Error determining default branch:'') (Some err) st)
      | (Inr defaultMain, st) \<Rightarrow> main_listed E defaultMain (getDetachedBranches E st))"

definition notRepoMessage :: jstring where
  "notRepoMessage =
     (str ''Error: This script must be run inside a Git repository (no .git folder found).'')"

definition main :: "'w env \<Rightarrow> 'w state \<Rightarrow> int option \<times> 'w state" where
  "main E st =
     (if \<not> isGitRepo E st then
        (Some 1, consoleError notRepoMessage None st)
      else main_default E (getDefaultMainBranch E st))"

text \<open>A run of the script: the flag starts as \<open>false\<close>, nothing has been done yet.\<close>

definition initial :: "'w \<Rightarrow> 'w state" where
  "initial w = \<lparr>world = w, trace = [], disclaimerConfirmed = False\<rparr>"

definition run :: "'w env \<Rightarrow> 'w \<Rightarrow> int option \<times> 'w state" where
  "run E w = main E (initial w)"

section \<open>The grammar of a branch line\<close>

inductive batch :: "bool \<Rightarrow> jstring list \<Rightarrow> jstring list \<Rightarrow> event list \<Rightarrow> failure + jstring list \<Rightarrow> bool"
  for forced :: bool
where
  batch_done: "batch forced [] acc [] (Inr acc)"
| batch_fatal: "failed r0 \<Longrightarrow> batch forced (b # bs) acc [Ran GitRevParseHead r0] (Inl currentBranchFailure)"
| batch_skip: "\<not> failed r0 \<Longrightarrow> trim (stdout r0) = b \<Longrightarrow> batch forced bs acc evs res \<Longrightarrow>
     batch forced (b # bs) acc
       (Ran GitRevParseHead r0 # ConsoleLog (skippingMessage b) # evs) res"
| batch_unmerged: "\<not> failed r0 \<Longrightarrow> trim (stdout r0) \<noteq> b \<Longrightarrow> failed r \<Longrightarrow> \<not> forced \<Longrightarrow>
     includes_str (stderr r) (str ''not fully merged'') \<Longrightarrow> batch forced bs (acc @ [b]) evs res \<Longrightarrow>
     batch forced (b # bs) acc
       (Ran GitRevParseHead r0 # Ran (GitBranchDelete forced b) r
          # ConsoleError (unmergedMessage b) None # evs) res"
| batch_error: "\<not> failed r0 \<Longrightarrow> trim (stdout r0) \<noteq> b \<Longrightarrow> failed r \<Longrightarrow>
     forced \<or> \<not> includes_str (stderr r) (str ''not fully merged'') \<Longrightarrow> batch forced bs acc evs res \<Longrightarrow>
     batch forced (b # bs) acc
       (Ran GitRevParseHead r0 # Ran (GitBranchDelete forced b) r
          # ConsoleError (errorMessage b (stderr r)) None # evs) res"
| batch_deleted: "\<not> failed r0 \<Longrightarrow> trim (stdout r0) \<noteq> b \<Longrightarrow> \<not> failed r \<Longrightarrow>
     batch forced bs acc evs res \<Longrightarrow>
     batch forced (b # bs) acc
       (Ran GitRevParseHead r0 # Ran (GitBranchDelete forced b) r
          # ConsoleLog (deletedMessage b) # evs) res"

fun unmerged_failure :: "event \<Rightarrow> jstring option" where
  "unmerged_failure (Ran (GitBranchDelete forced b) r) =
     (if \<not> forced \<and> failed r \<and> includes_str (stderr r) (str ''not fully merged'') then Some b else None)"
| "unmerged_failure _ = None"

fun is_read :: "event \<Rightarrow> bool" where
  "is_read (Ran GitRevParseHead r) = True"
| "is_read _ = False"

fun failed_read :: "event \<Rightarrow> bool" where
  "failed_read (Ran GitRevParseHead r) = failed r"
| "failed_read _ = False"

fun guarded_after :: "event option \<Rightarrow> event list \<Rightarrow> bool" where
  "guarded_after p [] = True"
| "guarded_after p (e # es) =
     ((\<forall>f b r. e = Ran (GitBranchDelete f b) r \<longrightarrow>
          (\<exists>r0. p = Some (Ran GitRevParseHead r0) \<and> \<not> failed r0 \<and> trim (stdout r0) \<noteq> b))
      \<and> guarded_after (Some e) es)"






datatype kind =
    KRead | KDelete | KExists | KList | KCheckout
  | KQuestion prompt | KNumber | KWarning | KPlain

fun kind_of :: "event \<Rightarrow> kind" where
  "kind_of (Ran GitRevParseHead r) = KRead"
| "kind_of (Ran (GitBranchList n) r) = KExists"
| "kind_of (Ran GitBranchVV r) = KList"
| "kind_of (Ran (GitBranchDelete f b) r) = KDelete"
| "kind_of (Ran (GitCheckout n) r) = KCheckout"
| "kind_of (Asked p a) = KQuestion p"
| "kind_of (AskedNumber a) = KNumber"
| "kind_of (ConsoleLog m) = (if m = warningMessage then KWarning else KPlain)"
| "kind_of (ConsoleError m e) = KPlain"

definition listed :: "exec_result \<Rightarrow> bool" where
  "listed r = (\<not> failed r \<and> trim (stdout r) \<noteq> [])"

definition WORK :: "kind set" where
  "WORK = {KRead, KDelete, KPlain, KQuestion PForce}"

definition SETUP :: "kind set" where
  "SETUP = {KList, KPlain, KNumber, KRead, KQuestion PSwitch, KCheckout}"

definition tail_shape :: "'w env \<Rightarrow> int option \<Rightarrow> event list \<Rightarrow> bool" where
  "tail_shape E code tail =
     (tail = [] \<or>
      (\<exists>a work. tail = ConsoleLog warningMessage # Asked PConfirm a # work \<and>
         (case a of
            None \<Rightarrow> work = [ConsoleError (str ''Prompt error:'') (Some PromptFailure)] \<and> code = Some 1
          | Some s \<Rightarrow>
              if affirmative E s then kind_of ` set work \<subseteq> WORK \<and> guarded_after None work
              else work = [ConsoleLog (str ''Cleanup operation cancelled by user.'')] \<and> code = Some 0)))"

text \<open>
  A scripted world: the replies still to come, taken one at a time; its case conversion
  covers the letters of Latin-1.
\<close>

definition lower_latin1 :: "unit16 \<Rightarrow> unit16" where
  "lower_latin1 c =
     (if (0x41 \<le> c \<and> c \<le> 0x5A) \<or> (0xC0 \<le> c \<and> c \<le> 0xDE \<and> c \<noteq> 0xD7) then c + 0x20 else c)"

datatype reply = Out exec_result | Said "jstring option" | Chose "int option"

definition scripted :: "(bool \<times> reply list) env" where
  "scripted =
     \<lparr>gitDirExists = fst,
      exec = (\<lambda>cmd w. case snd w of
                 Out r # rest \<Rightarrow> (r, (fst w, rest))
               | _ \<Rightarrow> (\<lparr>failed = True, stdout = [], stderr = []\<rparr>, w)),
      answer = (\<lambda>p w. case snd w of
                 Said a # rest \<Rightarrow> (a, (fst w, rest))
               | _ \<Rightarrow> (None, w)),
      answerNumber = (\<lambda>w. case snd w of
                 Chose a # rest \<Rightarrow> (a, (fst w, rest))
               | _ \<Rightarrow> (None, w)),
      lowerCase = map lower_latin1\<rparr>"

definition ok :: "jstring \<Rightarrow> exec_result" where
  "ok out = \<lparr>failed = False, stdout = out, stderr = []\<rparr>"

definition bad :: "jstring \<Rightarrow> exec_result" where
  "bad err = \<lparr>failed = True, stdout = [], stderr = err\<rparr>"

definition listing :: jstring where
  "listing = (str ''* main    1a2b3c4 [origin/main] msg'') @ [0x0A]
           @ (str ''  bugfix  5d6e7f8 msg'') @ [0x0A]
           @ (str ''  oldfeat 9a8b7c6 [origin/oldfeat: gone] msg'') @ [0x0A]"

definition forced_world :: "bool \<times> reply list" where
  "forced_world =
     (True, [Out (ok (str ''  main'')), Out (ok []), Out (ok listing), Chose (Some 2),
             Out (ok ((str ''main'') @ [0x0A])), Said (Some (str ''Yes'')),
             Out (ok ((str ''main'') @ [0x0A])), Out (ok (str ''Deleted branch bugfix (was 5d6e7f8).'')),
             Out (ok ((str ''main'') @ [0x0A])), Out (ok (str ''Deleted branch oldfeat (was 9a8b7c6).''))])"

definition forced_trace :: "event list" where
  "forced_trace =
     [Ran (GitBranchList (str ''main'')) (ok (str ''  main'')),
      Ran (GitBranchList (str ''master'')) (ok []),
      Ran GitBranchVV (ok listing)]
     @ trace (presentOptions (Some (str ''main'')) [(str ''bugfix''), (str ''oldfeat'')]
                \<lparr>world = (), trace = [], disclaimerConfirmed = False\<rparr>)
     @ [AskedNumber (Some 2),
        Ran GitRevParseHead (ok ((str ''main'') @ [0x0A])),
        ConsoleLog warningMessage,
        Asked PConfirm (Some (str ''Yes'')),
        Ran GitRevParseHead (ok ((str ''main'') @ [0x0A])),
        Ran (GitBranchDelete True (str ''bugfix'')) (ok (str ''Deleted branch bugfix (was 5d6e7f8).'')),
        ConsoleLog (deletedMessage (str ''bugfix'')),
        Ran GitRevParseHead (ok ((str ''main'') @ [0x0A])),
        Ran (GitBranchDelete True (str ''oldfeat'')) (ok (str ''Deleted branch oldfeat (was 9a8b7c6).'')),
        ConsoleLog (deletedMessage (str ''oldfeat'')),
        ConsoleLog (str ''Forced deletion completed.'')]"

definition forced_final :: "(bool \<times> reply list) state" where
  "forced_final = \<lparr>world = (True, []), trace = forced_trace, disclaimerConfirmed = True\<rparr>"

definition skip_world :: "bool \<times> reply list" where
  "skip_world = (True, [Out (ok (str ''beta'')), Out (ok (str ''beta'')), Out (ok (str ''Deleted branch alpha''))])"

definition mixed_world :: "bool \<times> reply list" where
  "mixed_world =
     (True, [Out (ok (str ''main'')), Out (bad (str ''error: the branch alpha is not fully merged.'')),
             Out (ok (str ''main'')), Out (bad (str ''error: branch beta not found.'')),
             Out (ok (str ''main'')), Out (ok (str ''Deleted branch gamma (was 1a2b3c4).''))])"

definition mixed_trace :: "event list" where
  "mixed_trace =
     [Ran GitRevParseHead (ok (str ''main'')),
      Ran (GitBranchDelete False (str ''alpha'')) (bad (str ''error: the branch alpha is not fully merged.'')),
      ConsoleError (unmergedMessage (str ''alpha'')) None,
      Ran GitRevParseHead (ok (str ''main'')),
      Ran (GitBranchDelete False (str ''beta'')) (bad (str ''error: branch beta not found.'')),
      ConsoleError (errorMessage (str ''beta'') (str ''error: branch beta not found.'')) None,
      Ran GitRevParseHead (ok (str ''main'')),
      Ran (GitBranchDelete False (str ''gamma'')) (ok (str ''Deleted branch gamma (was 1a2b3c4).'')),
      ConsoleLog (deletedMessage (str ''gamma''))]"



definition mixed_final :: "(bool \<times> reply list) state" where
  "mixed_final = \<lparr>world = (True, []), trace = mixed_trace, disclaimerConfirmed = False\<rparr>"




definition declined_world :: "bool \<times> reply list" where
  "declined_world =
     (True, [Out (ok (str ''  main'')), Out (ok []), Out (ok listing), Chose (Some 2),
             Out (ok ((str ''main'') @ [0x0A])), Said (Some (str ''no''))])"

definition declined_trace :: "event list" where
  "declined_trace =
     take 14 forced_trace
     @ [ConsoleLog warningMessage, Asked PConfirm (Some (str ''no'')),
        ConsoleLog (str ''Cleanup operation cancelled by user.'')]"

definition declined_final :: "(bool \<times> reply list) state" where
  "declined_final = \<lparr>world = (True, []), trace = declined_trace, disclaimerConfirmed = False\<rparr>"

definition tracked_listing :: jstring where
  "tracked_listing = (str ''* main   1a2b3c4 [origin/main] msg'') @ [0x0A]
                   @ (str ''  master 5d6e7f8 [origin/master: behind 2] msg'') @ [0x0A]"

definition both_world :: "bool \<times> reply list" where
  "both_world =
     (True, [Out (ok (str ''  main'')), Out (ok (str ''  master'')), Said (Some (str ''Master'')),
             Out (ok tracked_listing)])"

definition both_resolved :: "(bool \<times> reply list) state" where
  "both_resolved =
     \<lparr>world = (True, [Out (ok tracked_listing)]),
      trace = [Ran (GitBranchList (str ''main'')) (ok (str ''  main'')),
               Ran (GitBranchList (str ''master'')) (ok (str ''  master'')),
               Asked PDefault (Some (str ''Master''))],
      disclaimerConfirmed = False\<rparr>"

definition both_listed :: "(bool \<times> reply list) state" where
  "both_listed =
     \<lparr>world = (True, []),
      trace = [Ran (GitBranchList (str ''main'')) (ok (str ''  main'')),
               Ran (GitBranchList (str ''master'')) (ok (str ''  master'')),
               Asked PDefault (Some (str ''Master'')),
               Ran GitBranchVV (ok tracked_listing)],
      disclaimerConfirmed = False\<rparr>"

definition both_final :: "(bool \<times> reply list) state" where
  "both_final =
     \<lparr>world = (True, []),
      trace = [Ran (GitBranchList (str ''main'')) (ok (str ''  main'')),
               Ran (GitBranchList (str ''master'')) (ok (str ''  master'')),
               Asked PDefault (Some (str ''Master'')),
               Ran GitBranchVV (ok tracked_listing),
               ConsoleLog noStaleMessage],
      disclaimerConfirmed = False\<rparr>"

definition both_q1 :: "(bool \<times> reply list) state" where
  "both_q1 =
     \<lparr>world = (True, [Out (ok (str ''  master'')), Said (Some (str ''Master'')), Out (ok tracked_listing)]),
      trace = [Ran (GitBranchList (str ''main'')) (ok (str ''  main''))],
      disclaimerConfirmed = False\<rparr>"

definition both_q2 :: "(bool \<times> reply list) state" where
  "both_q2 =
     \<lparr>world = (True, [Said (Some (str ''Master'')), Out (ok tracked_listing)]),
      trace = [Ran (GitBranchList (str ''main'')) (ok (str ''  main'')),
               Ran (GitBranchList (str ''master'')) (ok (str ''  master''))],
      disclaimerConfirmed = False\<rparr>"

definition PRE :: "kind set" where
  "PRE = insert KExists (insert (KQuestion PDefault) SETUP)"

text \<open>
  What a pass over a batch does, name by name. For the name \<open>b\<close>, with \<open>r0\<close> the result of
  the read of the current branch and \<open>r\<close> the result of the deletion subprocess (if one is
  run): the read, then either the message of the skip, or the deletion subprocess followed
  by its report: on the error stream when it failed, on the output otherwise.
\<close>

definition report :: "bool \<Rightarrow> jstring \<Rightarrow> exec_result \<Rightarrow> event" where
  "report forced b r =
     (if failed r then
        ConsoleError (if \<not> forced \<and> includes_str (stderr r) (str ''not fully merged'')
                      then unmergedMessage b else errorMessage b (stderr r)) None
      else ConsoleLog (deletedMessage b))"

definition step_events :: "bool \<Rightarrow> jstring \<Rightarrow> exec_result \<times> exec_result \<Rightarrow> event list" where
  "step_events forced b rr =
     Ran GitRevParseHead (fst rr)
     # (if trim (stdout (fst rr)) = b then [ConsoleLog (skippingMessage b)]
        else [Ran (GitBranchDelete forced b) (snd rr), report forced b (snd rr)])"

text \<open>The names recorded for the forced retry: not skipped, failed in safe mode as unmerged.\<close>

definition recoverable :: "bool \<Rightarrow> jstring \<times> exec_result \<times> exec_result \<Rightarrow> bool" where
  "recoverable forced x =
     (case x of (b, r0, r) \<Rightarrow>
        \<not> forced \<and> trim (stdout r0) \<noteq> b \<and> failed r
        \<and> includes_str (stderr r) (str ''not fully merged''))"

definition fatal_world :: "bool \<times> reply list" where
  "fatal_world =
     (True, [Out (ok (str ''main'')), Out (bad (str ''error: the branch alpha is not fully merged.'')),
             Out (bad (str ''fatal: not a git repository''))])"

definition fatal_trace :: "event list" where
  "fatal_trace =
     [Ran GitRevParseHead (ok (str ''main'')),
      Ran (GitBranchDelete False (str ''alpha''))
        (bad (str ''error: the branch alpha is not fully merged.'')),
      ConsoleError (unmergedMessage (str ''alpha'')) None,
      Ran GitRevParseHead (bad (str ''fatal: not a git repository''))]"

definition fatal_final :: "(bool \<times> reply list) state" where
  "fatal_final = \<lparr>world = (True, []), trace = fatal_trace, disclaimerConfirmed = False\<rparr>"



section \<open>Lemmas\<close>

lemma uc_eq_iff [simp]: "uc a = uc b \<longleftrightarrow> a = b"
  by (simp add: uc_def)

lemma str_Nil [simp]: "str [] = []"
  by (simp add: str_def)


lemma str_eq_Nil [simp]: "str s = [] \<longleftrightarrow> s = []"
  by (simp add: str_def)

lemma str_eq_iff [simp]: "str a = str b \<longleftrightarrow> a = b"
  unfolding str_def by (rule inj_map_eq_map) (simp add: inj_on_def)

lemma hd_str [simp]: "hd (str (c # cs)) = uc c" "hd (str (c # cs) @ x) = uc c"
  by (simp_all add: str_def)

lemma uc_esc [simp]: "uc c = 0x1B \<longleftrightarrow> c = CHR 0x1B"
proof -
  have "uc (CHR 0x1B) = 0x1B" by (simp add: uc_def)
  then have "uc c = 0x1B \<longleftrightarrow> uc c = uc (CHR 0x1B)" by simp
  then show ?thesis by (simp only: uc_eq_iff)
qed

lemma trace_consoleLog [simp]: "trace (consoleLog m st) = trace st @ [ConsoleLog m]"
  and flag_consoleLog [simp]: "disclaimerConfirmed (consoleLog m st) = disclaimerConfirmed st"
  and world_consoleLog [simp]: "world (consoleLog m st) = world st"
  by (simp_all add: consoleLog_def)

lemma trace_consoleError [simp]: "trace (consoleError m e st) = trace st @ [ConsoleError m e]"
  and flag_consoleError [simp]: "disclaimerConfirmed (consoleError m e st) = disclaimerConfirmed st"
  and world_consoleError [simp]: "world (consoleError m e st) = world st"
  by (simp_all add: consoleError_def)

lemma run_exec_effect:
  assumes "run_exec E c st = (r, st')"
  shows "trace st' = trace st @ [Ran c r]" and "disclaimerConfirmed st' = disclaimerConfirmed st"
  using assms by (auto simp: run_exec_def split: prod.splits)

lemma promptGet_effect:
  assumes "promptGet E p st = (a, st')"
  shows "trace st' = trace st @ [Asked p a]" and "disclaimerConfirmed st' = disclaimerConfirmed st"
  using assms by (auto simp: promptGet_def split: prod.splits)

lemma promptGetNumber_effect:
  assumes "promptGetNumber E st = (a, st')"
  shows "trace st' = trace st @ [AskedNumber a]" and "disclaimerConfirmed st' = disclaimerConfirmed st"
  using assms by (auto simp: promptGetNumber_def split: prod.splits)

lemma getCurrentBranch_Inr:
  assumes "getCurrentBranch E st = (Inr cur, st')"
  shows "\<exists>r. trace st' = trace st @ [Ran GitRevParseHead r] \<and> \<not> failed r \<and> cur = trim (stdout r)
           \<and> disclaimerConfirmed st' = disclaimerConfirmed st"
  using assms
  by (auto simp: getCurrentBranch_def split: prod.splits if_splits dest: run_exec_effect)

lemma getCurrentBranch_Inl:
  assumes "getCurrentBranch E st = (Inl err, st')"
  shows "\<exists>r. trace st' = trace st @ [Ran GitRevParseHead r] \<and> failed r \<and> err = currentBranchFailure
           \<and> disclaimerConfirmed st' = disclaimerConfirmed st"
  using assms
  by (auto simp: getCurrentBranch_def currentBranchFailure_def split: prod.splits if_splits dest: run_exec_effect)

lemma deleteNext_batch:
  "deleteNext E bs forced acc st = (res, st') \<Longrightarrow>
   \<exists>evs. trace st' = trace st @ evs \<and> batch forced bs acc evs res
         \<and> disclaimerConfirmed st' = disclaimerConfirmed st"
proof (induction bs arbitrary: acc st)
  case Nil
  then show ?case by (auto intro: batch_done)
next
  case (Cons b bs)
  obtain c st1 where g: "getCurrentBranch E st = (c, st1)" by (cases "getCurrentBranch E st")
  show ?case
  proof (cases c)
    case (Inl err)
    with g Cons.prems have "res = Inl err" "st' = st1" by auto
    with getCurrentBranch_Inl[OF g[unfolded Inl]] show ?thesis
      by (auto intro: batch_fatal)
  next
    case (Inr cur)
    from getCurrentBranch_Inr[OF g[unfolded Inr]] obtain r0 where
      r0: "trace st1 = trace st @ [Ran GitRevParseHead r0]" "\<not> failed r0" "cur = trim (stdout r0)"
        "disclaimerConfirmed st1 = disclaimerConfirmed st" by blast
    show ?thesis
    proof (cases "b = cur")
      case True
      with g Inr Cons.prems have
        "deleteNext E bs forced acc (consoleLog (skippingMessage b) st1) = (res, st')"
        by simp
      from Cons.IH[OF this] obtain evs where
        "trace st' = trace st @ Ran GitRevParseHead r0 # ConsoleLog (skippingMessage b) # evs"
        "batch forced bs acc evs res" "disclaimerConfirmed st' = disclaimerConfirmed st"
        using r0 by auto
      with r0 True show ?thesis by (auto intro: batch_skip)
    next
      case False
      obtain r st2 where d: "run_exec E (GitBranchDelete forced b) st1 = (r, st2)"
        by (cases "run_exec E (GitBranchDelete forced b) st1")
      note e = run_exec_effect[OF d]
      consider (u) "failed r" "\<not> forced" "includes_str (stderr r) (str ''not fully merged'')"
        | (o) "failed r" "forced \<or> \<not> includes_str (stderr r) (str ''not fully merged'')"
        | (k) "\<not> failed r" by blast
      then show ?thesis
      proof cases
        case u
        with g Inr Cons.prems False d have
          "deleteNext E bs forced (acc @ [b])
             (consoleError (unmergedMessage b) None st2) = (res, st')"
          by simp
        from Cons.IH[OF this] obtain evs where
          "trace st' = trace st @ Ran GitRevParseHead r0 # Ran (GitBranchDelete forced b) r
              # ConsoleError (unmergedMessage b) None # evs"
          "batch forced bs (acc @ [b]) evs res" "disclaimerConfirmed st' = disclaimerConfirmed st"
          using r0 e by auto
        with r0 False u show ?thesis by (auto intro: batch_unmerged)
      next
        case o
        with g Inr Cons.prems False d have
          "deleteNext E bs forced acc
             (consoleError (errorMessage b (stderr r)) None st2) = (res, st')"
          by auto
        from Cons.IH[OF this] obtain evs where
          "trace st' = trace st @ Ran GitRevParseHead r0 # Ran (GitBranchDelete forced b) r
              # ConsoleError (errorMessage b (stderr r)) None # evs"
          "batch forced bs acc evs res" "disclaimerConfirmed st' = disclaimerConfirmed st"
          using r0 e by auto
        with r0 False o show ?thesis by (auto intro: batch_error)
      next
        case k
        with g Inr Cons.prems False d have
          "deleteNext E bs forced acc (consoleLog (deletedMessage b) st2) = (res, st')"
          by simp
        from Cons.IH[OF this] obtain evs where
          "trace st' = trace st @ Ran GitRevParseHead r0 # Ran (GitBranchDelete forced b) r
              # ConsoleLog (deletedMessage b) # evs"
          "batch forced bs acc evs res" "disclaimerConfirmed st' = disclaimerConfirmed st"
          using r0 e by auto
        with r0 False k show ?thesis by (auto intro: batch_deleted)
      qed
    qed
  qed
qed

lemma batch_guarded: "batch forced bs acc evs res \<Longrightarrow> guarded_after p evs"
  by (induction arbitrary: p rule: batch.induct) auto

lemma guarded_after_append:
  "guarded_after p (xs @ ys) =
     (guarded_after p xs \<and> guarded_after (if xs = [] then p else Some (last xs)) ys)"
  by (induction xs arbitrary: p) auto

lemma guarded_afterD:
  assumes "guarded_after p evs" and "evs = pre @ Ran (GitBranchDelete f b) r # post"
  shows "\<exists>r0. (if pre = [] then p else Some (last pre)) = Some (Ran GitRevParseHead r0)
            \<and> \<not> failed r0 \<and> trim (stdout r0) \<noteq> b"
  using assms by (simp add: guarded_after_append)

lemma guarded_after_NoneD:
  assumes "guarded_after None evs" and "evs = pre @ Ran (GitBranchDelete f b) r # post"
  shows "\<exists>pre' r0. pre = pre' @ [Ran GitRevParseHead r0] \<and> \<not> failed r0 \<and> trim (stdout r0) \<noteq> b"
proof -
  from guarded_afterD[OF assms] obtain r0 where
    *: "(if pre = [] then None else Some (last pre)) = Some (Ran GitRevParseHead r0)"
       "\<not> failed r0" "trim (stdout r0) \<noteq> b" by blast
  then have "pre \<noteq> []" "last pre = Ran GitRevParseHead r0" by (auto split: if_splits)
  then have "pre = butlast pre @ [Ran GitRevParseHead r0]" by (metis append_butlast_last_id)
  with * show ?thesis by blast
qed

lemma batch_deletions:
  "batch forced bs acc evs res \<Longrightarrow> Ran (GitBranchDelete f b) r \<in> set evs \<Longrightarrow> f = forced \<and> b \<in> set bs"
  by (induction rule: batch.induct) auto

lemma batch_Inr:
  "batch forced bs acc evs (Inr fl) \<Longrightarrow>
     fl = acc @ List.map_filter unmerged_failure evs
     \<and> length (filter is_read evs) = length bs \<and> (\<forall>e \<in> set evs. \<not> failed_read e)"
  by (induction bs acc evs "Inr fl :: failure + jstring list" rule: batch.induct)
     auto

lemma batch_Inl:
  "batch forced bs acc evs (Inl err) \<Longrightarrow>
     err = currentBranchFailure
     \<and> (\<exists>pre r. evs = pre @ [Ran GitRevParseHead r] \<and> failed r \<and> (\<forall>e \<in> set pre. \<not> failed_read e))"
proof (induction bs acc evs "Inl err :: failure + jstring list" rule: batch.induct)
  case (batch_fatal r0 b bs acc)
  then show ?case by (auto intro: exI[of _ "[]"])
next
  case (batch_skip r0 b bs acc evs)
  then obtain pre r where "evs = pre @ [Ran GitRevParseHead r]" "failed r" "\<forall>e \<in> set pre. \<not> failed_read e"
    by blast
  with batch_skip show ?case
    by (auto intro!: exI[of _ "Ran GitRevParseHead r0 # ConsoleLog (skippingMessage b) # pre"])
next
  case (batch_unmerged r0 b r bs acc evs)
  then obtain pre r' where "evs = pre @ [Ran GitRevParseHead r']" "failed r'" "\<forall>e \<in> set pre. \<not> failed_read e"
    by blast
  with batch_unmerged show ?case
    by (auto intro!: exI[of _ "Ran GitRevParseHead r0 # Ran (GitBranchDelete forced b) r # ConsoleError (unmergedMessage b) None # pre"])
next
  case (batch_error r0 b r bs acc evs)
  then obtain pre r' where "evs = pre @ [Ran GitRevParseHead r']" "failed r'" "\<forall>e \<in> set pre. \<not> failed_read e"
    by blast
  with batch_error show ?case
    by (auto intro!: exI[of _ "Ran GitRevParseHead r0 # Ran (GitBranchDelete forced b) r # ConsoleError (errorMessage b (stderr r)) None # pre"])
next
  case (batch_deleted r0 b r bs acc evs)
  then obtain pre r' where "evs = pre @ [Ran GitRevParseHead r']" "failed r'" "\<forall>e \<in> set pre. \<not> failed_read e"
    by blast
  with batch_deleted show ?case
    by (auto intro!: exI[of _ "Ran GitRevParseHead r0 # Ran (GitBranchDelete forced b) r # ConsoleLog (deletedMessage b) # pre"])
qed

lemma batch_forced_no_unmerged:
  "batch True bs acc evs res \<Longrightarrow> List.map_filter unmerged_failure evs = []"
  by (induction rule: batch.induct) auto

lemma batch_reported:
  "batch forced bs acc evs res \<Longrightarrow> evs = pre @ Ran (GitBranchDelete f b) r # post \<Longrightarrow>
     \<exists>post'. post = (if failed r
                     then ConsoleError (if \<not> forced \<and> includes_str (stderr r) (str ''not fully merged'')
                                        then unmergedMessage b else errorMessage b (stderr r)) None
                     else ConsoleLog (deletedMessage b)) # post'"
proof (induction arbitrary: pre rule: batch.induct)
  case (batch_done acc)
  then show ?case by simp
next
  case (batch_fatal r0 b bs acc)
  then show ?case by (auto simp: Cons_eq_append_conv)
next
  case (batch_skip r0 b bs acc evs res)
  then show ?case by (auto simp: Cons_eq_append_conv)
next
  case (batch_unmerged r0 b r bs acc evs res)
  then show ?case by (auto simp: Cons_eq_append_conv)
next
  case (batch_error r0 b r bs acc evs res)
  then show ?case by (auto simp: Cons_eq_append_conv)
next
  case (batch_deleted r0 b r bs acc evs res)
  then show ?case by (auto simp: Cons_eq_append_conv)
qed

declare ms.simps [simp del]

lemma ms_Bol [simp]: "ms Bol (i, s, c) = (if i = 0 then [(i, s, c)] else [])"
  by (simp add: ms.simps)


lemma ms_Cls [simp]:
  "ms (Cls P) (i, [], c) = []"
  "ms (Cls P) (i, x # xs, c) = (if P x then [(Suc i, xs, c)] else [])"
  by (simp_all add: ms.simps)





lemma ms_Star_Cls [simp]:
  "ms (Star (Cls P)) (i, [], c) = [(i, [], c)]"
  "ms (Star (Cls P)) (i, x # xs, c) =
     (if P x then ms (Star (Cls P)) (Suc i, xs, c) @ [(i, x # xs, c)] else [(i, x # xs, c)])"
  by (simp_all add: ms.simps(6)[of "Cls P"])





















declare regex_exec_from.simps [simp del]














lemma kind_plain: "m = [] \<or> hd m \<noteq> 0x1B \<Longrightarrow> kind_of (ConsoleLog m) = KPlain"
  by (auto simp: warningMessage_def)

lemma kind_warning: "kind_of (ConsoleLog warningMessage) = KWarning"
  by simp

lemma kind_messages [simp]:
  "kind_of (ConsoleLog (skippingMessage b)) = KPlain"
  "kind_of (ConsoleLog (deletedMessage b)) = KPlain"
  by (rule kind_plain, simp add: skippingMessage_def deletedMessage_def)+

declare kind_of.simps(8) [simp del]

lemma batch_kinds:
  "batch forced bs acc evs res \<Longrightarrow> kind_of ` set evs \<subseteq> {KRead, KDelete, KPlain}"
  by (induction rule: batch.induct) auto

lemma deleteBranches_batch:
  "deleteBranches E bs forced st = (res, st') \<Longrightarrow>
   \<exists>evs. trace st' = trace st @ evs \<and> batch forced bs [] evs res
         \<and> disclaimerConfirmed st' = disclaimerConfirmed st"
  unfolding deleteBranches_def by (rule deleteNext_batch)

lemma branchExists_effect:
  assumes "branchExists E n st = (b, st')"
  shows "\<exists>r. trace st' = trace st @ [Ran (GitBranchList n) r] \<and> b = (\<not> failed r \<and> trim (stdout r) \<noteq> [])
           \<and> disclaimerConfirmed st' = disclaimerConfirmed st"
  using assms
  by (auto simp: branchExists_def split: prod.splits if_splits dest: run_exec_effect)

lemma getDefaultMainBranch_effect:
  assumes "getDefaultMainBranch E st = (res, st')"
  shows "\<exists>r1 r2 dflt. trace st' = trace st @ Ran (GitBranchList (str ''main'')) r1 # Ran (GitBranchList (str ''master'')) r2 # dflt
           \<and> (dflt = [] \<or> (\<exists>a. dflt = [Asked PDefault a]))
           \<and> disclaimerConfirmed st' = disclaimerConfirmed st"
proof -
  obtain m st1 where m: "branchExists E (str ''main'') st = (m, st1)" by (cases "branchExists E (str ''main'') st")
  obtain ms st2 where ms: "branchExists E (str ''master'') st1 = (ms, st2)" by (cases "branchExists E (str ''master'') st1")
  from branchExists_effect[OF m] branchExists_effect[OF ms] obtain r1 r2 where
    t: "trace st2 = trace st @ [Ran (GitBranchList (str ''main'')) r1, Ran (GitBranchList (str ''master'')) r2]"
       "disclaimerConfirmed st2 = disclaimerConfirmed st" by auto
  show ?thesis
  proof (cases "m \<and> ms")
    case False
    with assms m ms have "st' = st2" by (auto simp: getDefaultMainBranch_def split: if_splits)
    with t show ?thesis by auto
  next
    case True
    obtain a st3 where p: "promptGet E PDefault st2 = (a, st3)" by (cases "promptGet E PDefault st2")
    with True assms m ms have "st' = st3"
      by (auto simp: getDefaultMainBranch_def split: option.splits)
    with t promptGet_effect[OF p] show ?thesis by auto
  qed
qed

lemma getDetachedBranches_effect:
  assumes "getDetachedBranches E st = (res, st')"
  shows "\<exists>r. trace st' = trace st @ [Ran GitBranchVV r]
           \<and> disclaimerConfirmed st' = disclaimerConfirmed st"
  using assms
  by (auto simp: getDetachedBranches_def split: prod.splits if_splits dest: run_exec_effect)

lemma fold_consoleLog:
  "trace (fold (\<lambda>b. consoleLog (f b)) bs st) = trace st @ map (\<lambda>b. ConsoleLog (f b)) bs
   \<and> disclaimerConfirmed (fold (\<lambda>b. consoleLog (f b)) bs st) = disclaimerConfirmed st
   \<and> world (fold (\<lambda>b. consoleLog (f b)) bs st) = world st"
  by (induction bs arbitrary: st) auto

lemma presentOptions_effect:
  "\<exists>evs. trace (presentOptions dm bs st) = trace st @ evs \<and> kind_of ` set evs \<subseteq> {KPlain}
     \<and> disclaimerConfirmed (presentOptions dm bs st) = disclaimerConfirmed st"
  by (auto simp: presentOptions_def Let_def fold_consoleLog kind_plain bullet_def image_iff)

lemma preCleanupCheck_effect:
  assumes "preCleanupCheck E bs dm st = (res, st')"
  shows "\<exists>evs. trace st' = trace st @ evs
           \<and> kind_of ` set evs \<subseteq> {KRead, KPlain, KQuestion PSwitch, KCheckout}
           \<and> disclaimerConfirmed st' = disclaimerConfirmed st"
proof (cases "truthy dm")
  case False
  with assms show ?thesis by (simp add: preCleanupCheck_def)
next
  case True
  then obtain d where d: "dm = Some d" by (cases dm) (auto simp: truthy_def)
  obtain c st1 where g: "getCurrentBranch E st = (c, st1)" by (cases "getCurrentBranch E st")
  show ?thesis
  proof (cases c)
    case (Inl err)
    with assms True d g have "st' = st1" by (simp add: preCleanupCheck_def)
    with getCurrentBranch_Inl[OF g[unfolded Inl]] show ?thesis by auto
  next
    case (Inr cur)
    from getCurrentBranch_Inr[OF g[unfolded Inr]] obtain r0 where
      r0: "trace st1 = trace st @ [Ran GitRevParseHead r0]"
        "disclaimerConfirmed st1 = disclaimerConfirmed st" by blast
    show ?thesis
    proof (cases "toLowerCase E cur = toLowerCase E d")
      case True
      with assms \<open>truthy dm\<close> d g Inr have "st' = st1" by (simp add: preCleanupCheck_def)
      with r0 show ?thesis by auto
    next
      case False
      define msg where "msg = notOnDefaultMessage d cur"
      have km: "kind_of (ConsoleLog msg) = KPlain"
        by (rule kind_plain) (simp add: msg_def notOnDefaultMessage_def)
      obtain a st2 where p: "promptGet E PSwitch (consoleLog msg st1) = (a, st2)"
        by (cases "promptGet E PSwitch (consoleLog msg st1)")
      note pe = promptGet_effect[OF p]
      show ?thesis
      proof (cases a)
        case None
        with assms \<open>truthy dm\<close> d g Inr False p have "st' = st2"
          by (simp add: preCleanupCheck_def msg_def)
        with r0 pe km show ?thesis by auto
      next
        case (Some sw)
        show ?thesis
        proof (cases "affirmative E sw")
          case no: False
          with assms \<open>truthy dm\<close> d g Inr False p Some have "st' = st2"
            by (simp add: preCleanupCheck_def msg_def)
          with r0 pe km show ?thesis by auto
        next
          case yes: True
          obtain r st3 where c: "run_exec E (GitCheckout d) st2 = (r, st3)"
            by (cases "run_exec E (GitCheckout d) st2")
          note ce = run_exec_effect[OF c]
          have k2: "kind_of (ConsoleLog (switchedMessage d)) = KPlain"
            by (rule kind_plain) (simp add: switchedMessage_def)
          from assms \<open>truthy dm\<close> d g Inr False p Some yes c have
            "st' = st3 \<or> st' = consoleLog (switchedMessage d) st3"
            by (auto simp: preCleanupCheck_def msg_def split: if_splits)
          with r0 pe ce km k2 show ?thesis by auto
        qed
      qed
    qed
  qed
qed

lemma guarded_no_delete:
  "KDelete \<notin> kind_of ` set evs \<Longrightarrow> guarded_after p evs"
  by (induction evs arbitrary: p) auto

lemma guarded_plain: "kind_of e = KPlain \<Longrightarrow> guarded_after p [e]"
  by (rule guarded_no_delete) simp

lemma main_forced_done_effect:
  assumes "main_forced_done (res, st) = (code, st')"
  shows "\<exists>m. trace st' = trace st @ [m] \<and> kind_of m = KPlain"
  using assms by (auto simp: main_forced_done_def kind_plain split: sum.splits)

lemma main_safe_done_effect:
  assumes "main_safe_done E (res, st) = (code, st')"
  shows "\<exists>rest. trace st' = trace st @ rest \<and> kind_of ` set rest \<subseteq> WORK \<and> (\<forall>p. guarded_after p rest)"
proof (cases res)
  case (Inl err)
  with assms show ?thesis by (auto simp: main_safe_done_def WORK_def)
next
  case (Inr fl)
  show ?thesis
  proof (cases "fl = []")
    case True
    with assms Inr show ?thesis by (auto simp: main_safe_done_def WORK_def kind_plain)
  next
    case False
    obtain a st1 where p: "promptGet E PForce st = (a, st1)" by (cases "promptGet E PForce st")
    note pe = promptGet_effect[OF p]
    show ?thesis
    proof (cases a)
      case None
      with assms Inr False p pe show ?thesis by (auto simp: main_safe_done_def WORK_def)
    next
      case (Some force)
      show ?thesis
      proof (cases "affirmative E force")
        case no: False
        with assms Inr False p pe Some show ?thesis
          by (auto simp: main_safe_done_def WORK_def kind_plain)
      next
        case yes: True
        obtain res2 st2 where d: "deleteBranches E fl True st1 = (res2, st2)"
          by (cases "deleteBranches E fl True st1")
        from deleteBranches_batch[OF d] obtain evs where
          evs: "trace st2 = trace st1 @ evs" "batch True fl [] evs res2" by blast
        from assms Inr False p Some yes d have "main_forced_done (res2, st2) = (code, st')"
          by (simp add: main_safe_done_def)
        from main_forced_done_effect[OF this] obtain m where
          m: "trace st' = trace st2 @ [m]" "kind_of m = KPlain" by blast
        have "trace st' = trace st @ (Asked PForce a # evs @ [m])" using m evs pe by simp
        moreover have "kind_of ` set (Asked PForce a # evs @ [m]) \<subseteq> WORK"
          using batch_kinds[OF evs(2)] m(2) by (auto simp: WORK_def)
        moreover have "guarded_after p (Asked PForce a # evs @ [m])" for p
          using batch_guarded[OF evs(2)] guarded_plain[OF m(2)]
          by (simp add: guarded_after_append)
        ultimately show ?thesis by blast
      qed
    qed
  qed
qed

lemma main_confirmed_effect:
  assumes "main_confirmed E option final st = (code, st')"
  shows "\<exists>work. trace st' = trace st @ work \<and> kind_of ` set work \<subseteq> WORK \<and> (\<forall>p. guarded_after p work)"
proof -
  consider (safe) "option = 1 \<or> option = 3" | (forced) "option = 2" | (none) "option \<noteq> 1" "option \<noteq> 3" "option \<noteq> 2"
    by blast
  then show ?thesis
  proof cases
    case safe
    obtain res st1 where d: "deleteBranches E final False st = (res, st1)"
      by (cases "deleteBranches E final False st")
    from deleteBranches_batch[OF d] obtain evs where
      evs: "trace st1 = trace st @ evs" "batch False final [] evs res" by blast
    from assms safe d have "main_safe_done E (res, st1) = (code, st')"
      by (auto simp: main_confirmed_def)
    from main_safe_done_effect[OF this] obtain rest where
      rest: "trace st' = trace st1 @ rest" "kind_of ` set rest \<subseteq> WORK" "\<forall>p. guarded_after p rest"
      by blast
    have "trace st' = trace st @ (evs @ rest)" using evs rest by simp
    moreover have "kind_of ` set (evs @ rest) \<subseteq> WORK"
      using batch_kinds[OF evs(2)] rest(2) by (auto simp: WORK_def)
    moreover have "guarded_after p (evs @ rest)" for p
      using batch_guarded[OF evs(2)] rest(3) by (simp add: guarded_after_append)
    ultimately show ?thesis by blast
  next
    case forced
    obtain res st1 where d: "deleteBranches E final True st = (res, st1)"
      by (cases "deleteBranches E final True st")
    from deleteBranches_batch[OF d] obtain evs where
      evs: "trace st1 = trace st @ evs" "batch True final [] evs res" by blast
    from assms forced d have "main_forced_done (res, st1) = (code, st')"
      by (simp add: main_confirmed_def)
    from main_forced_done_effect[OF this] obtain m where
      m: "trace st' = trace st1 @ [m]" "kind_of m = KPlain" by blast
    have "trace st' = trace st @ (evs @ [m])" using evs m by simp
    moreover have "kind_of ` set (evs @ [m]) \<subseteq> WORK"
      using batch_kinds[OF evs(2)] m(2) by (auto simp: WORK_def)
    moreover have "guarded_after p (evs @ [m])" for p
      using batch_guarded[OF evs(2)] guarded_plain[OF m(2)] by (simp add: guarded_after_append)
    ultimately show ?thesis by blast
  next
    case none
    with assms have "st' = st" by (simp add: main_confirmed_def)
    then show ?thesis by (auto intro: exI[of _ "[]"])
  qed
qed

lemma tail_shape_Nil: "tail_shape E code []"
  by (simp add: tail_shape_def)

lemma tail_shape_failed:
  "tail_shape E (Some 1) [ConsoleLog warningMessage, Asked PConfirm None,
                        ConsoleError (str ''Prompt error:'') (Some PromptFailure)]"
  by (simp add: tail_shape_def)

lemma tail_shape_declined:
  "\<not> affirmative E s \<Longrightarrow>
   tail_shape E (Some 0) [ConsoleLog warningMessage, Asked PConfirm (Some s),
                        ConsoleLog (str ''Cleanup operation cancelled by user.'')]"
  by (simp add: tail_shape_def)

lemma tail_shape_work:
  "affirmative E s \<Longrightarrow> kind_of ` set work \<subseteq> WORK \<Longrightarrow> guarded_after None work \<Longrightarrow>
   tail_shape E code (ConsoleLog warningMessage # Asked PConfirm (Some s) # work)"
  by (simp add: tail_shape_def)

lemma main_checked_effect:
  assumes "main_checked E option (res, st) = (code, st')" and "\<not> disclaimerConfirmed st"
  shows "\<exists>pl tail. trace st' = trace st @ pl @ tail \<and> kind_of ` set pl \<subseteq> {KPlain} \<and> tail_shape E code tail"
proof (cases res)
  case (Inl err)
  with assms have "trace st' = trace st @ [ConsoleError (str ''Error during pre-cleanup check:'') (Some err)] @ []"
    by (auto simp: main_checked_def)
  moreover have "kind_of ` set [ConsoleError (str ''Error during pre-cleanup check:'') (Some err)] \<subseteq> {KPlain}"
    by simp
  ultimately show ?thesis using tail_shape_Nil by blast
next
  case (Inr final)
  show ?thesis
  proof (cases "final = []")
    case True
    with assms Inr have
      "trace st' = trace st @ [ConsoleLog (str ''No branches available to delete after pre-cleanup adjustments.'')] @ []"
      by (auto simp: main_checked_def)
    moreover have "kind_of ` set [ConsoleLog (str ''No branches available to delete after pre-cleanup adjustments.'')] \<subseteq> {KPlain}"
      by (simp add: kind_plain)
    ultimately show ?thesis using tail_shape_Nil by blast
  next
    case False
    have nil: "kind_of ` set [] \<subseteq> {KPlain}" by simp
    obtain a st1 where p: "promptGet E PConfirm (consoleLog warningMessage st) = (a, st1)"
      by (cases "promptGet E PConfirm (consoleLog warningMessage st)")
    from promptGet_effect[OF p] have
      t1: "trace st1 = trace st @ [ConsoleLog warningMessage, Asked PConfirm a]" by simp
    show ?thesis
    proof (cases a)
      case None
      with assms Inr False p have "st' = consoleError (str ''Prompt error:'') (Some PromptFailure) st1" "code = Some 1"
        by (auto simp: main_checked_def confirmDisclaimer_def)
      with t1 None have "trace st' = trace st @ [] @ [ConsoleLog warningMessage, Asked PConfirm None,
              ConsoleError (str ''Prompt error:'') (Some PromptFailure)]" by simp
      with nil tail_shape_failed \<open>code = Some 1\<close> show ?thesis by blast
    next
      case (Some s)
      show ?thesis
      proof (cases "affirmative E s")
        case no: False
        with assms Inr False p Some have
          "st' = consoleLog (str ''Cleanup operation cancelled by user.'') st1" "code = Some 0"
          by (auto simp: main_checked_def confirmDisclaimer_def)
        with t1 Some have "trace st' = trace st @ [] @ [ConsoleLog warningMessage, Asked PConfirm (Some s),
             ConsoleLog (str ''Cleanup operation cancelled by user.'')]" by simp
        with nil tail_shape_declined[OF no] \<open>code = Some 0\<close> show ?thesis by blast
      next
        case yes: True
        with assms Inr False p Some have
          "main_confirmed E option final (st1\<lparr>disclaimerConfirmed := True\<rparr>) = (code, st')"
          by (auto simp: main_checked_def confirmDisclaimer_def)
        from main_confirmed_effect[OF this] obtain work where
          w: "trace st' = trace st1 @ work" "kind_of ` set work \<subseteq> WORK" "\<forall>p. guarded_after p work"
          by auto
        with t1 Some have "trace st' = trace st @ [] @ (ConsoleLog warningMessage # Asked PConfirm (Some s) # work)"
          by simp
        moreover have "tail_shape E code (ConsoleLog warningMessage # Asked PConfirm (Some s) # work)"
          using yes w by (intro tail_shape_work) auto
        ultimately show ?thesis using nil by blast
      qed
    qed
  qed
qed

lemma guard_then_checked:
  assumes g: "preCleanupCheck E bs dm st = (r, st1)"
    and c: "main_checked E option (r, st1) = (code, st')"
    and f: "\<not> disclaimerConfirmed st"
  shows "\<exists>pre tail. trace st' = trace st @ pre @ tail \<and> kind_of ` set pre \<subseteq> SETUP
           \<and> tail_shape E code tail"
proof -
  from preCleanupCheck_effect[OF g] obtain evs where
    evs: "trace st1 = trace st @ evs" "kind_of ` set evs \<subseteq> {KRead, KPlain, KQuestion PSwitch, KCheckout}"
      "disclaimerConfirmed st1 = disclaimerConfirmed st" by blast
  with f have "\<not> disclaimerConfirmed st1" by simp
  from main_checked_effect[OF c this] obtain pl tail where
    pl: "trace st' = trace st1 @ pl @ tail" "kind_of ` set pl \<subseteq> {KPlain}" "tail_shape E code tail" by blast
  have "trace st' = trace st @ (evs @ pl) @ tail" using evs pl by simp
  moreover have "kind_of ` set (evs @ pl) \<subseteq> SETUP" using evs(2) pl(2) by (auto simp: SETUP_def)
  ultimately show ?thesis using pl(3) by blast
qed

lemma setup_only:
  assumes "trace st' = trace st @ [e]" and "kind_of e = KPlain"
  shows "\<exists>pre tail. trace st' = trace st @ pre @ tail \<and> kind_of ` set pre \<subseteq> SETUP
           \<and> tail_shape E code tail"
proof -
  have "trace st' = trace st @ [e] @ []" using assms by simp
  moreover have "kind_of ` set [e] \<subseteq> SETUP" using assms by (simp add: SETUP_def)
  ultimately show ?thesis using tail_shape_Nil by blast
qed

lemma main_option_effect:
  assumes m: "main_option E dm branches (res, st) = (code, st')" and f: "\<not> disclaimerConfirmed st"
  shows "\<exists>pre tail. trace st' = trace st @ pre @ tail \<and> kind_of ` set pre \<subseteq> SETUP
           \<and> tail_shape E code tail"
proof (cases res)
  case None
  with m have "trace st' = trace st @ [ConsoleError (str ''Prompt error:'') (Some PromptFailure)]"
    by (auto simp: main_option_def)
  then show ?thesis by (rule setup_only) simp
next
  case (Some option)
  show ?thesis
  proof (cases "option = 4")
    case True
    with m Some have "trace st' = trace st @ [ConsoleLog (str ''Operation cancelled.'')]"
      by (auto simp: main_option_def)
    then show ?thesis by (rule setup_only) (simp add: kind_plain)
  next
    case False
    define bs where "bs = (if option = 3 \<and> truthy dm
        then filter (\<lambda>b. toLowerCase E b \<noteq> toLowerCase E (the dm)) branches else branches)"
    show ?thesis
    proof (cases "option = 3 \<and> truthy dm \<and> bs = []")
      case True
      with m Some False have "trace st' = trace st @
          [ConsoleLog ((str ''No branches available to delete after filtering out '') @ quoted (the dm) @ (str ''.''))]"
        by (auto simp: main_option_def bs_def Let_def)
      then show ?thesis by (rule setup_only) (simp add: kind_plain)
    next
      case no: False
      obtain r st1 where g: "preCleanupCheck E bs dm st = (r, st1)"
        by (cases "preCleanupCheck E bs dm st")
      from m Some False no g have "main_checked E option (r, st1) = (code, st')"
        by (auto simp: main_option_def bs_def Let_def split: if_splits)
      from guard_then_checked[OF g this f] show ?thesis .
    qed
  qed
qed

lemma main_listed_effect:
  assumes m: "main_listed E dm (res, st) = (code, st')" and f: "\<not> disclaimerConfirmed st"
  shows "\<exists>pre tail. trace st' = trace st @ pre @ tail \<and> kind_of ` set pre \<subseteq> SETUP
           \<and> tail_shape E code tail"
proof (cases res)
  case (Inl err)
  with m have "\<exists>t. trace st' = trace st @ [ConsoleError t None]"
    by (auto simp: main_listed_def)
  then obtain t where "trace st' = trace st @ [ConsoleError t None]" ..
  then show ?thesis by (rule setup_only) simp
next
  case (Inr branches)
  show ?thesis
  proof (cases "branches = []")
    case True
    with m Inr have "trace st' = trace st @ [ConsoleLog noStaleMessage]"
      by (auto simp: main_listed_def)
    then show ?thesis by (rule setup_only) (simp add: kind_plain noStaleMessage_def)
  next
    case False
    from presentOptions_effect[of dm branches st] obtain evs where
      evs: "trace (presentOptions dm branches st) = trace st @ evs" "kind_of ` set evs \<subseteq> {KPlain}"
        "disclaimerConfirmed (presentOptions dm branches st) = disclaimerConfirmed st" by blast
    obtain a st1 where p: "promptGetNumber E (presentOptions dm branches st) = (a, st1)"
      by (cases "promptGetNumber E (presentOptions dm branches st)")
    note pe = promptGetNumber_effect[OF p]
    from m Inr False p have "main_option E dm branches (a, st1) = (code, st')"
      by (simp add: main_listed_def)
    moreover have "\<not> disclaimerConfirmed st1" using pe evs f by simp
    ultimately obtain pre tail where
      s: "trace st' = trace st1 @ pre @ tail" "kind_of ` set pre \<subseteq> SETUP" "tail_shape E code tail"
      using main_option_effect by blast
    have "trace st' = trace st @ (evs @ AskedNumber a # pre) @ tail" using s pe evs by simp
    moreover have "kind_of ` set (evs @ AskedNumber a # pre) \<subseteq> SETUP"
      using evs(2) s(2) by (auto simp: SETUP_def)
    ultimately show ?thesis using s(3) by blast
  qed
qed

lemma main_default_effect:
  assumes m: "main_default E (res, st) = (code, st')" and f: "\<not> disclaimerConfirmed st"
  shows "\<exists>pre tail. trace st' = trace st @ pre @ tail \<and> kind_of ` set pre \<subseteq> SETUP
           \<and> tail_shape E code tail"
proof (cases res)
  case (Inl err)
  with m have "trace st' = trace st @ [ConsoleError (str ''Error determining default branch:'') (Some err)]"
    by (auto simp: main_default_def)
  then show ?thesis by (rule setup_only) simp
next
  case (Inr dm)
  obtain r st1 where g: "getDetachedBranches E st = (r, st1)" by (cases "getDetachedBranches E st")
  from getDetachedBranches_effect[OF g] obtain x where
    x: "trace st1 = trace st @ [Ran GitBranchVV x]" "disclaimerConfirmed st1 = disclaimerConfirmed st"
    by blast
  from m Inr g have "main_listed E dm (r, st1) = (code, st')" by (simp add: main_default_def)
  moreover have "\<not> disclaimerConfirmed st1" using x f by simp
  ultimately obtain pre tail where
    s: "trace st' = trace st1 @ pre @ tail" "kind_of ` set pre \<subseteq> SETUP" "tail_shape E code tail"
    using main_listed_effect by blast
  have "trace st' = trace st @ (Ran GitBranchVV x # pre) @ tail" using s x by simp
  moreover have "kind_of ` set (Ran GitBranchVV x # pre) \<subseteq> SETUP"
    using s(2) by (auto simp: SETUP_def)
  ultimately show ?thesis using s(3) by blast
qed

lemma run_shape:
  assumes "run E w = (code, st)"
  shows "(\<not> gitDirExists E w \<and> code = Some 1 \<and> trace st =
            [ConsoleError notRepoMessage None])
       \<or> (gitDirExists E w \<and> (\<exists>r1 r2 dflt pre tail.
            trace st = Ran (GitBranchList (str ''main'')) r1 # Ran (GitBranchList (str ''master'')) r2 # dflt @ pre @ tail
            \<and> (dflt = [] \<or> (\<exists>a. dflt = [Asked PDefault a]))
            \<and> kind_of ` set pre \<subseteq> SETUP \<and> tail_shape E code tail))"
proof (cases "gitDirExists E w")
  case False
  with assms show ?thesis by (auto simp: run_def main_def isGitRepo_def initial_def)
next
  case True
  obtain r st1 where g: "getDefaultMainBranch E (initial w) = (r, st1)"
    by (cases "getDefaultMainBranch E (initial w)")
  from getDefaultMainBranch_effect[OF g] obtain r1 r2 dflt where
    d: "trace st1 = Ran (GitBranchList (str ''main'')) r1 # Ran (GitBranchList (str ''master'')) r2 # dflt"
       "dflt = [] \<or> (\<exists>a. dflt = [Asked PDefault a])" "\<not> disclaimerConfirmed st1"
    by (auto simp: initial_def)
  from assms True g have "main_default E (r, st1) = (code, st)"
    by (simp add: run_def main_def isGitRepo_def initial_def)
  from main_default_effect[OF this d(3)] obtain pre tail where
    s: "trace st = trace st1 @ pre @ tail" "kind_of ` set pre \<subseteq> SETUP" "tail_shape E code tail"
    by blast
  with d True show ?thesis by auto
qed

lemma pair_of_fst: "fst p = a \<Longrightarrow> p = (a, snd p)"
  by auto

lemma guarded_after_any: "guarded_after None evs \<Longrightarrow> guarded_after p evs"
  by (cases evs) auto

lemma tail_shape_guarded:
  assumes "tail_shape E code tail"
  shows "guarded_after p tail"
proof (cases "tail = []")
  case True
  then show ?thesis by simp
next
  case False
  with assms obtain a work where t: "tail = ConsoleLog warningMessage # Asked PConfirm a # work"
    and w: "case a of
              None \<Rightarrow> work = [ConsoleError (str ''Prompt error:'') (Some PromptFailure)] \<and> code = Some 1
            | Some s \<Rightarrow>
                if affirmative E s then kind_of ` set work \<subseteq> WORK \<and> guarded_after None work
                else work = [ConsoleLog (str ''Cleanup operation cancelled by user.'')] \<and> code = Some 0"
    unfolding tail_shape_def by blast
  have "guarded_after None work"
  proof (cases a)
    case None
    with w show ?thesis by simp
  next
    case (Some s)
    with w show ?thesis by (cases "affirmative E s") simp_all
  qed
  then have "guarded_after (Some (Asked PConfirm a)) work" by (rule guarded_after_any)
  with t show ?thesis by simp
qed

lemma SETUP_guarded: "kind_of ` set evs \<subseteq> SETUP \<Longrightarrow> guarded_after p evs"
  by (rule guarded_no_delete) (auto simp: SETUP_def)

lemma run_guarded:
  assumes "run E w = (code, st)"
  shows "guarded_after None (trace st)"
  using run_shape[OF assms]
  by (auto simp: guarded_after_append tail_shape_guarded SETUP_guarded)

lemma deleteBranches_guarded:
  assumes "deleteBranches E bs forced st = (res, st')"
  shows "\<exists>evs. trace st' = trace st @ evs \<and>
           (\<forall>pre f b r post. evs = pre @ Ran (GitBranchDelete f b) r # post \<longrightarrow>
              f = forced \<and> b \<in> set bs \<and>
              (\<exists>pre' r0. pre = pre' @ [Ran GitRevParseHead r0] \<and> \<not> failed r0
                  \<and> trim (stdout r0) \<noteq> b))"
proof -
  from deleteBranches_batch[OF assms] obtain evs where
    evs: "trace st' = trace st @ evs" "batch forced bs [] evs res" by blast
  have "f = forced \<and> b \<in> set bs \<and>
        (\<exists>pre' r0. pre = pre' @ [Ran GitRevParseHead r0] \<and> \<not> failed r0 \<and> trim (stdout r0) \<noteq> b)"
    if e: "evs = pre @ Ran (GitBranchDelete f b) r # post" for pre f b r post
  proof -
    from e have "Ran (GitBranchDelete f b) r \<in> set evs" by simp
    from batch_deletions[OF evs(2) this] have "f = forced \<and> b \<in> set bs" .
    moreover note guarded_after_NoneD[OF batch_guarded[OF evs(2)] e]
    ultimately show ?thesis by simp
  qed
  then have "\<forall>pre f b r post. evs = pre @ Ran (GitBranchDelete f b) r # post \<longrightarrow>
              f = forced \<and> b \<in> set bs \<and>
              (\<exists>pre' r0. pre = pre' @ [Ran GitRevParseHead r0] \<and> \<not> failed r0
                  \<and> trim (stdout r0) \<noteq> b)" by (intro allI impI)
  with evs(1) show ?thesis by (intro exI conjI)
qed

lemma run_deletions_guarded:
  assumes "run E w = (code, final)"
  shows "\<forall>pre f b r post. trace final = pre @ Ran (GitBranchDelete f b) r # post \<longrightarrow>
              (\<exists>pre' r0. pre = pre' @ [Ran GitRevParseHead r0] \<and> \<not> failed r0
                  \<and> trim (stdout r0) \<noteq> b)"
proof (intro allI impI)
  fix pre f b r post
  assume "trace final = pre @ Ran (GitBranchDelete f b) r # post"
  from guarded_after_NoneD[OF run_guarded[OF assms] this]
  show "\<exists>pre' r0. pre = pre' @ [Ran GitRevParseHead r0] \<and> \<not> failed r0 \<and> trim (stdout r0) \<noteq> b" .
qed

lemma deleteNext_skip:
  assumes "getCurrentBranch E st = (Inr branch, st1)"
  shows "deleteNext E (branch # rest) forced acc st =
        deleteNext E rest forced acc (consoleLog (skippingMessage branch) st1)"
  by (simp only: deleteNext.simps assms prod.case sum.case if_True simp_thms)

lemma forced_run:
  "run scripted forced_world = (Some 0, forced_final)"
  unfolding forced_final_def by code_simp


text \<open>
  Claim C1. At every position of the batch the engine reads the current branch first; when
  the name at that position is the branch just read, it logs the skip and goes on to the
  rest without a deletion subprocess, in either mode. So in every pass of \<open>deleteBranches\<close>,
  and in every run of the script, each deletion subprocess is issued for a name of the
  batch, in the mode of the pass, and the event just before it is a successful read of the
  current branch that gave another name.
\<close>

theorem C1_current_branch_never_deleted:
  "(getCurrentBranch E st = (Inr branch, st1) \<longrightarrow>
      deleteNext E (branch # rest) forced acc st =
        deleteNext E rest forced acc (consoleLog (skippingMessage branch) st1))
   \<and> (deleteBranches E bs forced st = (res, st') \<longrightarrow>
        (\<exists>evs. trace st' = trace st @ evs \<and>
           (\<forall>pre f b r post. evs = pre @ Ran (GitBranchDelete f b) r # post \<longrightarrow>
              f = forced \<and> b \<in> set bs \<and>
              (\<exists>pre' r0. pre = pre' @ [Ran GitRevParseHead r0] \<and> \<not> failed r0
                  \<and> trim (stdout r0) \<noteq> b))))
   \<and> (run E w = (code, final) \<longrightarrow>
        (\<forall>pre f b r post. trace final = pre @ Ran (GitBranchDelete f b) r # post \<longrightarrow>
              (\<exists>pre' r0. pre = pre' @ [Ran GitRevParseHead r0] \<and> \<not> failed r0
                  \<and> trim (stdout r0) \<noteq> b)))"
proof (intro conjI impI)
  assume "getCurrentBranch E st = (Inr branch, st1)"
  then show "deleteNext E (branch # rest) forced acc st =
        deleteNext E rest forced acc (consoleLog (skippingMessage branch) st1)"
    by (rule deleteNext_skip)
next
  assume "deleteBranches E bs forced st = (res, st')"
  then show "\<exists>evs. trace st' = trace st @ evs \<and>
           (\<forall>pre f b r post. evs = pre @ Ran (GitBranchDelete f b) r # post \<longrightarrow>
              f = forced \<and> b \<in> set bs \<and>
              (\<exists>pre' r0. pre = pre' @ [Ran GitRevParseHead r0] \<and> \<not> failed r0
                  \<and> trim (stdout r0) \<noteq> b))"
    by (rule deleteBranches_guarded)
next
  assume "run E w = (code, final)"
  then show "\<forall>pre f b r post. trace final = pre @ Ran (GitBranchDelete f b) r # post \<longrightarrow>
              (\<exists>pre' r0. pre = pre' @ [Ran GitRevParseHead r0] \<and> \<not> failed r0
                  \<and> trim (stdout r0) \<noteq> b)"
    by (rule run_deletions_guarded)
qed

theorem C1_witness:
  "deleteNext scripted [(str ''beta''), (str ''alpha'')] True [] (initial skip_world) =
     deleteNext scripted [(str ''alpha'')] True []
       (consoleLog (skippingMessage (str ''beta'')) (snd (getCurrentBranch scripted (initial skip_world))))
   \<and> (\<exists>evs. trace (snd (deleteBranches scripted [(str ''beta''), (str ''alpha'')] True (initial skip_world)))
               = trace (initial skip_world) @ evs \<and>
           (\<forall>pre f b r post. evs = pre @ Ran (GitBranchDelete f b) r # post \<longrightarrow>
              f = True \<and> b \<in> set [(str ''beta''), (str ''alpha'')] \<and>
              (\<exists>pre' r0. pre = pre' @ [Ran GitRevParseHead r0] \<and> \<not> failed r0
                  \<and> trim (stdout r0) \<noteq> b)))
   \<and> run scripted forced_world = (Some 0, forced_final)
   \<and> (\<exists>pre' r0. take 17 forced_trace = pre' @ [Ran GitRevParseHead r0]
          \<and> \<not> failed r0 \<and> trim (stdout r0) \<noteq> (str ''bugfix''))"
proof -
  have "fst (getCurrentBranch scripted (initial skip_world)) = Inr (str ''beta'')" by code_simp
  then have a: "getCurrentBranch scripted (initial skip_world) =
      (Inr (str ''beta''), snd (getCurrentBranch scripted (initial skip_world)))" by (rule pair_of_fst)
  have b: "deleteBranches scripted [(str ''beta''), (str ''alpha'')] True (initial skip_world) =
      (fst (deleteBranches scripted [(str ''beta''), (str ''alpha'')] True (initial skip_world)),
       snd (deleteBranches scripted [(str ''beta''), (str ''alpha'')] True (initial skip_world)))" by simp
  note c = forced_run
  have d: "trace forced_final =
      take 17 forced_trace
      @ Ran (GitBranchDelete True (str ''bugfix'')) (ok (str ''Deleted branch bugfix (was 5d6e7f8).''))
      # drop 18 forced_trace" unfolding forced_final_def by code_simp
  note t = C1_current_branch_never_deleted[of scripted "initial skip_world" "(str ''beta'')"
      "snd (getCurrentBranch scripted (initial skip_world))" "[(str ''alpha'')]" True "[]"
      "[(str ''beta''), (str ''alpha'')]" "fst (deleteBranches scripted [(str ''beta''), (str ''alpha'')] True (initial skip_world))"
      "snd (deleteBranches scripted [(str ''beta''), (str ''alpha'')] True (initial skip_world))"
      forced_world "Some 0" forced_final]
  from t a have 1: "deleteNext scripted [(str ''beta''), (str ''alpha'')] True [] (initial skip_world) =
     deleteNext scripted [(str ''alpha'')] True []
       (consoleLog (skippingMessage (str ''beta'')) (snd (getCurrentBranch scripted (initial skip_world))))"
    by (elim conjE) (erule mp)
  from t b have 2: "\<exists>evs. trace (snd (deleteBranches scripted [(str ''beta''), (str ''alpha'')] True (initial skip_world)))
               = trace (initial skip_world) @ evs \<and>
           (\<forall>pre f b r post. evs = pre @ Ran (GitBranchDelete f b) r # post \<longrightarrow>
              f = True \<and> b \<in> set [(str ''beta''), (str ''alpha'')] \<and>
              (\<exists>pre' r0. pre = pre' @ [Ran GitRevParseHead r0] \<and> \<not> failed r0
                  \<and> trim (stdout r0) \<noteq> b))"
    by (elim conjE) (erule mp)
  from t c have "\<forall>pre f b r post. trace forced_final = pre @ Ran (GitBranchDelete f b) r # post \<longrightarrow>
              (\<exists>pre' r0. pre = pre' @ [Ran GitRevParseHead r0] \<and> \<not> failed r0
                  \<and> trim (stdout r0) \<noteq> b)"
    by (elim conjE) (erule mp)
  from this[rule_format, OF d] have 3: "\<exists>pre' r0. take 17 forced_trace = pre' @ [Ran GitRevParseHead r0]
          \<and> \<not> failed r0 \<and> trim (stdout r0) \<noteq> (str ''bugfix'')" .
  from 1 2 c 3 show ?thesis by (intro conjI)
qed





lemma dropWhile_all: "\<forall>c \<in> set s. P c \<Longrightarrow> dropWhile P s = []"
  by simp






lemma kinds_filter_empty: "k \<notin> kind_of ` set evs \<Longrightarrow> filter (\<lambda>e. kind_of e = k) evs = []"
  by (induction evs) auto

lemma tail_shapeD:
  assumes "tail_shape E code tail" and "tail \<noteq> []"
  shows "\<exists>a work. tail = ConsoleLog warningMessage # Asked PConfirm a # work
           \<and> kind_of ` set work \<subseteq> WORK
           \<and> ((\<forall>s. a = Some s \<longrightarrow> \<not> affirmative E s) \<longrightarrow> KDelete \<notin> kind_of ` set work)
           \<and> (\<forall>s. a = Some s \<and> \<not> affirmative E s \<longrightarrow> code = Some 0)"
proof -
  from assms obtain a work where t: "tail = ConsoleLog warningMessage # Asked PConfirm a # work"
    and w: "case a of
              None \<Rightarrow> work = [ConsoleError (str ''Prompt error:'') (Some PromptFailure)] \<and> code = Some 1
            | Some s \<Rightarrow>
                if affirmative E s then kind_of ` set work \<subseteq> WORK \<and> guarded_after None work
                else work = [ConsoleLog (str ''Cleanup operation cancelled by user.'')] \<and> code = Some 0"
    unfolding tail_shape_def by blast
  have k: "kind_of (ConsoleLog (str ''Cleanup operation cancelled by user.'')) = KPlain"
    by (rule kind_plain) simp
  show ?thesis
  proof (cases a)
    case None
    with w t show ?thesis by (auto simp: WORK_def)
  next
    case (Some s)
    show ?thesis
    proof (cases "affirmative E s")
      case True
      with w t Some show ?thesis by auto
    next
      case False
      with w t Some k show ?thesis by (auto simp: WORK_def)
    qed
  qed
qed

lemma kinds_dflt:
  "dflt = [] \<or> (\<exists>a. dflt = [Asked PDefault a]) \<Longrightarrow> kind_of ` set dflt \<subseteq> {KQuestion PDefault}"
  by auto

lemma phasesI:
  "tr = before @ tail \<Longrightarrow> kind_of ` set before \<subseteq> PRE \<Longrightarrow> tail_shape E code tail \<Longrightarrow>
   \<exists>before tail. tr = before @ tail \<and> kind_of ` set before \<subseteq> PRE \<and> tail_shape E code tail"
  by blast

lemma run_phases:
  assumes "run E w = (code, final)"
  shows "\<exists>before tail. trace final = before @ tail \<and> kind_of ` set before \<subseteq> PRE \<and> tail_shape E code tail"
  using run_shape[OF assms]
proof (elim disjE conjE exE)
  assume "trace final = [ConsoleError notRepoMessage None]"
  then have "trace final = [ConsoleError notRepoMessage None] @ []" by simp
  moreover have "kind_of ` set [ConsoleError notRepoMessage None] \<subseteq> PRE"
    by (simp add: PRE_def SETUP_def)
  moreover have "tail_shape E code []" by (rule tail_shape_Nil)
  ultimately show ?thesis by (rule phasesI)
next
  fix r1 r2 dflt pre tail
  assume t: "trace final = Ran (GitBranchList (str ''main'')) r1 # Ran (GitBranchList (str ''master'')) r2 # dflt @ pre @ tail"
    and d: "dflt = []"
    and p: "kind_of ` set pre \<subseteq> SETUP" and ts: "tail_shape E code tail"
  from t have "trace final = (Ran (GitBranchList (str ''main'')) r1 # Ran (GitBranchList (str ''master'')) r2 # dflt @ pre) @ tail"
    by simp
  moreover have "kind_of ` set (Ran (GitBranchList (str ''main'')) r1 # Ran (GitBranchList (str ''master'')) r2 # dflt @ pre) \<subseteq> PRE"
    using d p unfolding PRE_def by auto
  ultimately show ?thesis using ts by (rule phasesI)
next
  fix r1 r2 dflt pre tail a
  assume t: "trace final = Ran (GitBranchList (str ''main'')) r1 # Ran (GitBranchList (str ''master'')) r2 # dflt @ pre @ tail"
    and d: "dflt = [Asked PDefault a]"
    and p: "kind_of ` set pre \<subseteq> SETUP" and ts: "tail_shape E code tail"
  from t have "trace final = (Ran (GitBranchList (str ''main'')) r1 # Ran (GitBranchList (str ''master'')) r2 # dflt @ pre) @ tail"
    by simp
  moreover have "kind_of ` set (Ran (GitBranchList (str ''main'')) r1 # Ran (GitBranchList (str ''master'')) r2 # dflt @ pre) \<subseteq> PRE"
    using d p unfolding PRE_def by auto
  ultimately show ?thesis using ts by (rule phasesI)
qed

lemma PRE_quiet:
  "KDelete \<notin> PRE" "KQuestion PConfirm \<notin> PRE" "KWarning \<notin> PRE" "KQuestion PForce \<notin> PRE"
  by (simp_all add: PRE_def SETUP_def)

lemma WORK_quiet:
  "KQuestion PConfirm \<notin> WORK" "KWarning \<notin> WORK" "KExists \<notin> WORK" "KQuestion PDefault \<notin> WORK"
  by (simp_all add: WORK_def)

lemma run_gated:
  assumes r: "run E w = (code, final)" and s: "trace final = pre @ e # post" and d: "kind_of e = KDelete"
  shows "\<exists>a. affirmative E a \<and> Asked PConfirm (Some a) \<in> set pre"
proof -
  from run_phases[OF r] obtain before tail where
    t: "trace final = before @ tail" "kind_of ` set before \<subseteq> PRE" "tail_shape E code tail" by blast
  from t(2) d PRE_quiet(1) have eb: "e \<notin> set before" by auto
  from t(1) s have "before @ tail = pre @ e # post" by simp
  then obtain us where "(before = pre @ us \<and> us @ tail = e # post) \<or> (before @ us = pre \<and> tail = us @ e # post)"
    by (auto simp: append_eq_append_conv2)
  then have "\<exists>us. before @ us = pre \<and> tail = us @ e # post"
  proof
    assume a: "before = pre @ us \<and> us @ tail = e # post"
    with eb have "us = []" by (cases us) auto
    with a show ?thesis by auto
  next
    assume "before @ us = pre \<and> tail = us @ e # post"
    then show ?thesis by blast
  qed
  then obtain us where us: "before @ us = pre" "tail = us @ e # post" by blast
  then have "tail \<noteq> []" by simp
  from tail_shapeD[OF t(3) this] obtain a work where
    w: "tail = ConsoleLog warningMessage # Asked PConfirm a # work"
       "(\<forall>s. a = Some s \<longrightarrow> \<not> affirmative E s) \<longrightarrow> KDelete \<notin> kind_of ` set work" by blast
  from us(2) w(1) d obtain us' where u: "us = ConsoleLog warningMessage # Asked PConfirm a # us'"
    "work = us' @ e # post"
    by (cases us; cases "tl us") (auto simp: kind_warning)
  with d have "KDelete \<in> kind_of ` set work" by force
  with w(2) obtain s where "a = Some s" "affirmative E s" by blast
  with u(1) us(1) show ?thesis by auto
qed

lemma run_declined:
  assumes r: "run E w = (code, final)" and m: "Asked PConfirm (Some a) \<in> set (trace final)"
    and n: "\<not> affirmative E a"
  shows "code = Some 0 \<and> KDelete \<notin> kind_of ` set (trace final)"
proof -
  from run_phases[OF r] obtain before tail where
    t: "trace final = before @ tail" "kind_of ` set before \<subseteq> PRE" "tail_shape E code tail" by blast
  have nb: "Asked PConfirm (Some a) \<notin> set before" using t(2) PRE_quiet(2) by force
  with m t(1) have mt: "Asked PConfirm (Some a) \<in> set tail" by simp
  then have "tail \<noteq> []" by auto
  from tail_shapeD[OF t(3) this] obtain a' work where
    w: "tail = ConsoleLog warningMessage # Asked PConfirm a' # work" "kind_of ` set work \<subseteq> WORK"
       "(\<forall>s. a' = Some s \<longrightarrow> \<not> affirmative E s) \<longrightarrow> KDelete \<notin> kind_of ` set work"
       "\<forall>s. a' = Some s \<and> \<not> affirmative E s \<longrightarrow> code = Some 0" by blast
  have "Asked PConfirm (Some a) \<notin> set work" using w(2) WORK_quiet(1) by force
  with mt w(1) have "a' = Some a" by simp
  with w n have "code = Some 0" "KDelete \<notin> kind_of ` set work" by auto
  moreover have "KDelete \<notin> kind_of ` set before" using t(2) PRE_quiet(1) by auto
  ultimately show ?thesis using t(1) w(1) by (auto simp: kind_warning)
qed

lemma run_disclaimer_once:
  assumes r: "run E w = (code, final)"
  shows "length (filter (\<lambda>e. kind_of e = KQuestion PConfirm) (trace final)) \<le> 1
       \<and> length (filter (\<lambda>e. kind_of e = KWarning) (trace final)) \<le> 1"
proof -
  from run_phases[OF r] obtain before tail where
    t: "trace final = before @ tail" "kind_of ` set before \<subseteq> PRE" "tail_shape E code tail" by blast
  have b: "filter (\<lambda>e. kind_of e = KQuestion PConfirm) before = []"
          "filter (\<lambda>e. kind_of e = KWarning) before = []"
    using t(2) PRE_quiet by (auto intro!: kinds_filter_empty)
  show ?thesis
  proof (cases "tail = []")
    case True
    with t(1) b show ?thesis by simp
  next
    case False
    from tail_shapeD[OF t(3) this] obtain a work where
      w: "tail = ConsoleLog warningMessage # Asked PConfirm a # work" "kind_of ` set work \<subseteq> WORK" by blast
    have "filter (\<lambda>e. kind_of e = KQuestion PConfirm) work = []"
          "filter (\<lambda>e. kind_of e = KWarning) work = []"
      using w(2) WORK_quiet by (auto intro!: kinds_filter_empty)
    with t(1) b w(1) show ?thesis by (simp add: kind_warning)
  qed
qed

text \<open>
  Claim C3. In every run, each deletion subprocess comes after a question of the disclaimer
  that was answered \<^verbatim>\<open>yes\<close> or \<^verbatim>\<open>y\<close> in any letter case; when the disclaimer is answered
  otherwise, the run ends with status 0 and has no deletion subprocess at all; and the
  warning is printed, and its question asked, at most once in a run.
\<close>

theorem C3_disclaimer_gates_deletion:
  "run E w = (code, final) \<longrightarrow>
     (\<forall>pre e post. trace final = pre @ e # post \<and> kind_of e = KDelete \<longrightarrow>
        (\<exists>a. affirmative E a \<and> Asked PConfirm (Some a) \<in> set pre))
   \<and> (\<forall>a. Asked PConfirm (Some a) \<in> set (trace final) \<and> \<not> affirmative E a \<longrightarrow>
        code = Some 0 \<and> KDelete \<notin> kind_of ` set (trace final))
   \<and> length (filter (\<lambda>e. kind_of e = KQuestion PConfirm) (trace final)) \<le> 1
   \<and> length (filter (\<lambda>e. kind_of e = KWarning) (trace final)) \<le> 1"
proof (intro impI conjI allI)
  fix pre e post
  assume r: "run E w = (code, final)" and h: "trace final = pre @ e # post \<and> kind_of e = KDelete"
  from run_gated[OF r conjunct1[OF h] conjunct2[OF h]]
  show "\<exists>a. affirmative E a \<and> Asked PConfirm (Some a) \<in> set pre" .
next
  fix a
  assume r: "run E w = (code, final)"
    and h: "Asked PConfirm (Some a) \<in> set (trace final) \<and> \<not> affirmative E a"
  from run_declined[OF r conjunct1[OF h] conjunct2[OF h]]
  show "code = Some 0" "KDelete \<notin> kind_of ` set (trace final)" by simp_all
next
  assume r: "run E w = (code, final)"
  from run_disclaimer_once[OF r]
  show "length (filter (\<lambda>e. kind_of e = KQuestion PConfirm) (trace final)) \<le> 1"
    "length (filter (\<lambda>e. kind_of e = KWarning) (trace final)) \<le> 1" by simp_all
qed

lemma declined_run: "run scripted declined_world = (Some 0, declined_final)"
  unfolding declined_final_def by code_simp

theorem C3_witness:
  "run scripted forced_world = (Some 0, forced_final)
   \<and> (\<exists>a. affirmative scripted a \<and> Asked PConfirm (Some a) \<in> set (take 17 forced_trace))
   \<and> length (filter (\<lambda>e. kind_of e = KQuestion PConfirm) forced_trace) \<le> 1
   \<and> length (filter (\<lambda>e. kind_of e = KWarning) forced_trace) \<le> 1
   \<and> run scripted declined_world = (Some 0, declined_final)
   \<and> KDelete \<notin> kind_of ` set declined_trace"
proof -
  note f = C3_disclaimer_gates_deletion[of scripted forced_world "Some 0" forced_final, THEN mp, OF forced_run]
  note d = C3_disclaimer_gates_deletion[of scripted declined_world "Some 0" declined_final, THEN mp, OF declined_run]
  note f1 = f[THEN conjunct1, rule_format]
  note f3 = f[THEN conjunct2, THEN conjunct2, THEN conjunct1]
  note f4 = f[THEN conjunct2, THEN conjunct2, THEN conjunct2]
  note d2 = d[THEN conjunct2, THEN conjunct1, rule_format]
  have s: "trace forced_final =
      take 17 forced_trace
      @ Ran (GitBranchDelete True (str ''bugfix'')) (ok (str ''Deleted branch bugfix (was 5d6e7f8).''))
      # drop 18 forced_trace
      \<and> kind_of (Ran (GitBranchDelete True (str ''bugfix'')) (ok (str ''Deleted branch bugfix (was 5d6e7f8).''))) = KDelete"
    unfolding forced_final_def by code_simp
  have t: "trace forced_final = forced_trace" "trace declined_final = declined_trace"
    by (simp_all add: forced_final_def declined_final_def)
  have a: "Asked PConfirm (Some (str ''no'')) \<in> set (trace declined_final) \<and> \<not> affirmative scripted (str ''no'')"
    unfolding declined_final_def by code_simp
  from f1[OF s] have 1: "\<exists>a. affirmative scripted a \<and> Asked PConfirm (Some a) \<in> set (take 17 forced_trace)" .
  from f3 f4 t have 2: "length (filter (\<lambda>e. kind_of e = KQuestion PConfirm) forced_trace) \<le> 1"
    "length (filter (\<lambda>e. kind_of e = KWarning) forced_trace) \<le> 1" by simp_all
  from d2[OF a] t have 3: "KDelete \<notin> kind_of ` set declined_trace" by simp
  from forced_run 1 2 declined_run 3 show ?thesis by (intro conjI)
qed

lemma branchExists_query:
  assumes "branchExists E n st = (b, st')"
  shows "\<exists>r. run_exec E (GitBranchList n) st = (r, st') \<and> b = listed r"
  using assms by (auto simp: branchExists_def listed_def split: prod.splits if_splits)

lemma default_policy:
  assumes "branchExists E (str ''main'') st = (hasMain, st1)" and "branchExists E (str ''master'') st1 = (hasMaster, st2)"
  shows "(hasMain \<and> hasMaster \<longrightarrow> (\<forall>a st3. promptGet E PDefault st2 = (Some a, st3) \<longrightarrow>
             getDefaultMainBranch E st = (Inr (Some (toLowerCase E a)), st3)))
       \<and> (hasMain \<and> \<not> hasMaster \<longrightarrow> getDefaultMainBranch E st = (Inr (Some (str ''main'')), st2))
       \<and> (\<not> hasMain \<and> hasMaster \<longrightarrow> getDefaultMainBranch E st = (Inr (Some (str ''master'')), st2))
       \<and> (\<not> hasMain \<and> \<not> hasMaster \<longrightarrow> getDefaultMainBranch E st = (Inr None, st2))"
  using assms by (simp add: getDefaultMainBranch_def)

lemma tail_kinds:
  assumes "tail_shape E code tail"
  shows "kind_of ` set tail \<subseteq> insert KWarning (insert (KQuestion PConfirm) WORK)"
proof (cases "tail = []")
  case True
  then show ?thesis by simp
next
  case False
  from tail_shapeD[OF assms this] obtain a work where
    "tail = ConsoleLog warningMessage # Asked PConfirm a # work" "kind_of ` set work \<subseteq> WORK" by blast
  then show ?thesis by (auto simp: kind_warning)
qed

lemma run_resolves_once:
  assumes r: "run E w = (code, final)" and g: "gitDirExists E w"
  shows "(\<exists>r1 r2. filter (\<lambda>e. kind_of e = KExists) (trace final)
                  = [Ran (GitBranchList (str ''main'')) r1, Ran (GitBranchList (str ''master'')) r2])
       \<and> length (filter (\<lambda>e. kind_of e = KQuestion PDefault) (trace final)) \<le> 1"
proof -
  from run_shape[OF r] g have "\<exists>r1 r2 dflt pre tail.
            trace final = Ran (GitBranchList (str ''main'')) r1 # Ran (GitBranchList (str ''master'')) r2 # dflt @ pre @ tail
            \<and> (dflt = [] \<or> (\<exists>a. dflt = [Asked PDefault a]))
            \<and> kind_of ` set pre \<subseteq> SETUP \<and> tail_shape E code tail"
    by (elim disjE) simp_all
  then obtain r1 r2 dflt pre tail where
    t: "trace final = Ran (GitBranchList (str ''main'')) r1 # Ran (GitBranchList (str ''master'')) r2 # dflt @ pre @ tail"
    and d: "dflt = [] \<or> (\<exists>a. dflt = [Asked PDefault a])"
    and p: "kind_of ` set pre \<subseteq> SETUP" and ts: "tail_shape E code tail"
    by (elim exE conjE)
  have kp: "KExists \<notin> kind_of ` set pre" "KQuestion PDefault \<notin> kind_of ` set pre"
    using p by (auto simp: SETUP_def)
  have kt: "KExists \<notin> kind_of ` set tail" "KQuestion PDefault \<notin> kind_of ` set tail"
    using tail_kinds[OF ts] by (auto simp: WORK_def)
  have kd: "filter (\<lambda>e. kind_of e = KExists) dflt = []"
    "length (filter (\<lambda>e. kind_of e = KQuestion PDefault) dflt) \<le> 1"
    using d by auto
  have "filter (\<lambda>e. kind_of e = KExists) (trace final)
          = [Ran (GitBranchList (str ''main'')) r1, Ran (GitBranchList (str ''master'')) r2]"
    using t kd(1) kinds_filter_empty[OF kp(1)] kinds_filter_empty[OF kt(1)] by simp
  moreover have "length (filter (\<lambda>e. kind_of e = KQuestion PDefault) (trace final)) \<le> 1"
    using t kd(2) kinds_filter_empty[OF kp(2)] kinds_filter_empty[OF kt(2)] by simp
  ultimately show ?thesis by blast
qed

text \<open>
  Claim C7. \<open>branchExists\<close> runs one query for the name it is given and takes a failed
  query, like an empty answer, as the branch not existing. \<open>getDefaultMainBranch\<close> asks for
  \<^verbatim>\<open>main\<close>, then for \<^verbatim>\<open>master\<close>: when both exist the default is the answer of the user in
  lower case, when one exists it is that one, when none exists there is no default. A run
  inside a repository makes these two queries once each and asks the user at most once.
\<close>

theorem C7_default_branch_resolution:
  "(branchExists E n st0 = (b, st0') \<longrightarrow>
      (\<exists>r. run_exec E (GitBranchList n) st0 = (r, st0') \<and> b = (\<not> failed r \<and> trim (stdout r) \<noteq> [])))
   \<and> (branchExists E (str ''main'') st = (hasMain, st1) \<and> branchExists E (str ''master'') st1 = (hasMaster, st2) \<longrightarrow>
        (hasMain \<and> hasMaster \<longrightarrow> (\<forall>a st3. promptGet E PDefault st2 = (Some a, st3) \<longrightarrow>
             getDefaultMainBranch E st = (Inr (Some (toLowerCase E a)), st3)))
       \<and> (hasMain \<and> \<not> hasMaster \<longrightarrow> getDefaultMainBranch E st = (Inr (Some (str ''main'')), st2))
       \<and> (\<not> hasMain \<and> hasMaster \<longrightarrow> getDefaultMainBranch E st = (Inr (Some (str ''master'')), st2))
       \<and> (\<not> hasMain \<and> \<not> hasMaster \<longrightarrow> getDefaultMainBranch E st = (Inr None, st2)))
   \<and> (run E w = (code, final) \<and> gitDirExists E w \<longrightarrow>
        (\<exists>r1 r2. filter (\<lambda>e. kind_of e = KExists) (trace final)
                  = [Ran (GitBranchList (str ''main'')) r1, Ran (GitBranchList (str ''master'')) r2])
       \<and> length (filter (\<lambda>e. kind_of e = KQuestion PDefault) (trace final)) \<le> 1)"
proof (intro conjI)
  show "branchExists E n st0 = (b, st0') \<longrightarrow>
      (\<exists>r. run_exec E (GitBranchList n) st0 = (r, st0') \<and> b = (\<not> failed r \<and> trim (stdout r) \<noteq> []))"
    using branchExists_query[of E n st0 b st0'] by (simp add: listed_def)
next
  show "branchExists E (str ''main'') st = (hasMain, st1) \<and> branchExists E (str ''master'') st1 = (hasMaster, st2) \<longrightarrow>
        (hasMain \<and> hasMaster \<longrightarrow> (\<forall>a st3. promptGet E PDefault st2 = (Some a, st3) \<longrightarrow>
             getDefaultMainBranch E st = (Inr (Some (toLowerCase E a)), st3)))
       \<and> (hasMain \<and> \<not> hasMaster \<longrightarrow> getDefaultMainBranch E st = (Inr (Some (str ''main'')), st2))
       \<and> (\<not> hasMain \<and> hasMaster \<longrightarrow> getDefaultMainBranch E st = (Inr (Some (str ''master'')), st2))
       \<and> (\<not> hasMain \<and> \<not> hasMaster \<longrightarrow> getDefaultMainBranch E st = (Inr None, st2))"
    by (rule impI, elim conjE, rule default_policy)
next
  show "run E w = (code, final) \<and> gitDirExists E w \<longrightarrow>
        (\<exists>r1 r2. filter (\<lambda>e. kind_of e = KExists) (trace final)
                  = [Ran (GitBranchList (str ''main'')) r1, Ran (GitBranchList (str ''master'')) r2])
       \<and> length (filter (\<lambda>e. kind_of e = KQuestion PDefault) (trace final)) \<le> 1"
    by (rule impI, elim conjE, rule run_resolves_once)
qed

lemma both_default:
  "getDefaultMainBranch scripted (initial both_world) = (Inr (Some (str ''master'')), both_resolved)"
  unfolding both_resolved_def by code_simp

theorem C7_witness:
  "branchExists scripted (str ''main'') (initial both_world) = (True, both_q1)
   \<and> (\<exists>r. run_exec scripted (GitBranchList (str ''main'')) (initial both_world) = (r, both_q1)
          \<and> \<not> failed r \<and> trim (stdout r) \<noteq> [])
   \<and> branchExists scripted (str ''master'') both_q1 = (True, both_q2)
   \<and> promptGet scripted PDefault both_q2 = (Some (str ''Master''), both_resolved)
   \<and> getDefaultMainBranch scripted (initial both_world) = (Inr (Some (str ''master'')), both_resolved)
   \<and> run scripted forced_world = (Some 0, forced_final) \<and> gitDirExists scripted forced_world
   \<and> (\<exists>r1 r2. filter (\<lambda>e. kind_of e = KExists) forced_trace
                  = [Ran (GitBranchList (str ''main'')) r1, Ran (GitBranchList (str ''master'')) r2])
   \<and> length (filter (\<lambda>e. kind_of e = KQuestion PDefault) forced_trace) \<le> 1"
proof -
  have q1: "branchExists scripted (str ''main'') (initial both_world) = (True, both_q1)"
    unfolding both_q1_def by code_simp
  have q2: "branchExists scripted (str ''master'') both_q1 = (True, both_q2)"
    unfolding both_q2_def by code_simp
  have p: "promptGet scripted PDefault both_q2 = (Some (str ''Master''), both_resolved)"
    unfolding both_resolved_def by code_simp
  have g: "gitDirExists scripted forced_world" by code_simp
  have l: "toLowerCase scripted (str ''Master'') = (str ''master'')" by code_simp
  have t: "trace forced_final = forced_trace" by (simp add: forced_final_def)
  note a = C7_default_branch_resolution[of scripted "(str ''main'')" "initial both_world" True both_q1
      "initial both_world" True both_q1 True both_q2 forced_world "Some 0" forced_final]
  note a1 = a[THEN conjunct1, THEN mp, OF q1]
  note a2 = a[THEN conjunct2, THEN conjunct1, THEN mp, OF conjI[OF q1 q2], THEN conjunct1,
      THEN mp, OF conjI[OF TrueI TrueI], rule_format, OF p]
  note a3 = a[THEN conjunct2, THEN conjunct2, THEN mp, OF conjI[OF forced_run g]]
  from a1 have 1: "\<exists>r. run_exec scripted (GitBranchList (str ''main'')) (initial both_world) = (r, both_q1)
          \<and> \<not> failed r \<and> trim (stdout r) \<noteq> []" by simp
  from a2 l have 2: "getDefaultMainBranch scripted (initial both_world) = (Inr (Some (str ''master'')), both_resolved)"
    by simp
  from a3 t have 3: "\<exists>r1 r2. filter (\<lambda>e. kind_of e = KExists) forced_trace
                  = [Ran (GitBranchList (str ''main'')) r1, Ran (GitBranchList (str ''master'')) r2]"
    "length (filter (\<lambda>e. kind_of e = KQuestion PDefault) forced_trace) \<le> 1" by simp_all
  from q1 1 q2 p 2 forced_run g 3 show ?thesis by (intro conjI)
qed

lemma getDefaultMainBranch_Inr:
  assumes "getDefaultMainBranch E st = (Inr dm, st1)"
  shows "\<exists>r1 r2 dflt. trace st1 = trace st @ Ran (GitBranchList (str ''main'')) r1
                          # Ran (GitBranchList (str ''master'')) r2 # dflt
           \<and> (if listed r1 \<and> listed r2 then \<exists>a. dflt = [Asked PDefault (Some a)]
               else dflt = [])"
proof -
  obtain b1 s1 where q1: "branchExists E (str ''main'') st = (b1, s1)" by (cases "branchExists E (str ''main'') st")
  obtain b2 s2 where q2: "branchExists E (str ''master'') s1 = (b2, s2)" by (cases "branchExists E (str ''master'') s1")
  from branchExists_query[OF q1] obtain r1 where
    r1: "run_exec E (GitBranchList (str ''main'')) st = (r1, s1)" "b1 = listed r1" by blast
  from branchExists_query[OF q2] obtain r2 where
    r2: "run_exec E (GitBranchList (str ''master'')) s1 = (r2, s2)" "b2 = listed r2" by blast
  note e1 = run_exec_effect[OF r1(1)] and e2 = run_exec_effect[OF r2(1)]
  have t2: "trace s2 = trace st @ [Ran (GitBranchList (str ''main'')) r1, Ran (GitBranchList (str ''master'')) r2]"
    using e1 e2 by simp
  show ?thesis
  proof (cases "b1 \<and> b2")
    case True
    obtain a s3 where p: "promptGet E PDefault s2 = (a, s3)" by (cases "promptGet E PDefault s2")
    from assms q1 q2 True p obtain x where "a = Some x" "st1 = s3"
      by (cases a) (auto simp: getDefaultMainBranch_def)
    with promptGet_effect[OF p] t2 have
      "trace st1 = trace st @ Ran (GitBranchList (str ''main'')) r1 # Ran (GitBranchList (str ''master'')) r2
                     # [Asked PDefault (Some x)]" by simp
    with True r1(2) r2(2) show ?thesis by auto
  next
    case False
    with assms q1 q2 have "st1 = s2" by (auto simp: getDefaultMainBranch_def split: if_splits)
    with t2 have "trace st1 = trace st @ Ran (GitBranchList (str ''main'')) r1
                     # Ran (GitBranchList (str ''master'')) r2 # []" by simp
    with False r1(2) r2(2) show ?thesis by auto
  qed
qed

lemma both_listing:
  "getDetachedBranches scripted both_resolved = (Inr [], both_listed)"
  unfolding both_listed_def by code_simp

lemma both_run: "run scripted both_world = (Some 0, both_final)"
  unfolding both_final_def by code_simp

text \<open>
  Claim C8, as it is stated, fails on the program. In the repository of the run below both
  \<^verbatim>\<open>main\<close> and \<^verbatim>\<open>master\<close> exist and every branch tracks a live upstream, so that no stale
  branch is found: the run ends with status 0 after the one message, but the user has been
  asked which of the two is the default, and that question comes before the listing.
\<close>

theorem C8_counterexample:
  "run scripted both_world = (Some 0, both_final)
   \<and> getDetachedBranches scripted both_resolved = (Inr [], both_listed)
   \<and> trace both_final =
       [Ran (GitBranchList (str ''main'')) (ok (str ''  main'')),
        Ran (GitBranchList (str ''master'')) (ok (str ''  master'')),
        Asked PDefault (Some (str ''Master'')),
        Ran GitBranchVV (ok tracked_listing),
        ConsoleLog noStaleMessage]"
  using both_run both_listing by (simp add: both_final_def)

text \<open>
  Claim C8, amended. The default branch is resolved first and the branches are listed
  next. A run inside a repository in which the listing finds no stale branch ends with
  status 0 after a single message; before it the run has made the two existence queries,
  has asked for the default branch exactly when both \<^verbatim>\<open>main\<close> and \<^verbatim>\<open>master\<close> exist, and
  has listed the branches, in this order, and it has done nothing else.
\<close>

theorem C8_zero_stale_run:
  "gitDirExists E w \<and> getDefaultMainBranch E (initial w) = (Inr dm, st1)
     \<and> getDetachedBranches E st1 = (Inr [], st2) \<longrightarrow>
   (\<exists>r1 r2 dflt r. run E w = (Some 0, consoleLog noStaleMessage st2)
      \<and> trace (consoleLog noStaleMessage st2) =
            Ran (GitBranchList (str ''main'')) r1 # Ran (GitBranchList (str ''master'')) r2
            # dflt @ [Ran GitBranchVV r, ConsoleLog noStaleMessage]
      \<and> (if listed r1 \<and> listed r2 then \<exists>a. dflt = [Asked PDefault (Some a)] else dflt = []))"
proof (intro impI, elim conjE)
  assume g: "gitDirExists E w" and d: "getDefaultMainBranch E (initial w) = (Inr dm, st1)"
    and l: "getDetachedBranches E st1 = (Inr [], st2)"
  from getDefaultMainBranch_Inr[OF d] obtain r1 r2 dflt where
    t1: "trace st1 = Ran (GitBranchList (str ''main'')) r1 # Ran (GitBranchList (str ''master'')) r2 # dflt"
    and p: "if listed r1 \<and> listed r2 then \<exists>a. dflt = [Asked PDefault (Some a)] else dflt = []"
    by (auto simp: initial_def)
  from getDetachedBranches_effect[OF l] obtain r where
    t2: "trace st2 = trace st1 @ [Ran GitBranchVV r]" by blast
  have "run E w = (Some 0, consoleLog noStaleMessage st2)"
    using g d l by (simp add: run_def main_def isGitRepo_def initial_def main_default_def main_listed_def)
  moreover have "trace (consoleLog noStaleMessage st2) =
            Ran (GitBranchList (str ''main'')) r1 # Ran (GitBranchList (str ''master'')) r2
            # dflt @ [Ran GitBranchVV r, ConsoleLog noStaleMessage]"
    using t1 t2 by simp
  ultimately show "\<exists>r1 r2 dflt r. run E w = (Some 0, consoleLog noStaleMessage st2)
      \<and> trace (consoleLog noStaleMessage st2) =
            Ran (GitBranchList (str ''main'')) r1 # Ran (GitBranchList (str ''master'')) r2
            # dflt @ [Ran GitBranchVV r, ConsoleLog noStaleMessage]
      \<and> (if listed r1 \<and> listed r2 then \<exists>a. dflt = [Asked PDefault (Some a)] else dflt = [])"
    using p by blast
qed

theorem C8_witness:
  "gitDirExists scripted both_world
   \<and> getDefaultMainBranch scripted (initial both_world) = (Inr (Some (str ''master'')), both_resolved)
   \<and> getDetachedBranches scripted both_resolved = (Inr [], both_listed)
   \<and> (\<exists>r1 r2 dflt r. run scripted both_world = (Some 0, consoleLog noStaleMessage both_listed)
      \<and> trace (consoleLog noStaleMessage both_listed) =
            Ran (GitBranchList (str ''main'')) r1 # Ran (GitBranchList (str ''master'')) r2
            # dflt @ [Ran GitBranchVV r, ConsoleLog noStaleMessage]
      \<and> (if listed r1 \<and> listed r2 then \<exists>a. dflt = [Asked PDefault (Some a)] else dflt = []))"
proof -
  have g: "gitDirExists scripted both_world" by code_simp
  from C8_zero_stale_run[of scripted both_world "Some (str ''master'')" both_resolved both_listed,
      THEN mp, OF conjI[OF g conjI[OF both_default both_listing]]]
    g both_default both_listing
  show ?thesis by (intro conjI)
qed

lemma batch_blocks:
  "batch forced bs acc evs res \<Longrightarrow>
   \<exists>rs. (\<forall>rr \<in> set rs. \<not> failed (fst rr)) \<and>
      (case res of
         Inr fl \<Rightarrow>
           length rs = length bs
           \<and> evs = concat (map2 (step_events forced) bs rs)
           \<and> fl = acc @ map fst (filter (recoverable forced) (zip bs rs))
       | Inl err \<Rightarrow>
           err = currentBranchFailure \<and> length rs < length bs
           \<and> (\<exists>r0. failed r0 \<and>
                 evs = concat (map2 (step_events forced) (take (length rs) bs) rs)
                       @ [Ran GitRevParseHead r0]))"
proof (induction rule: batch.induct)
  case (batch_done acc)
  show ?case by (rule exI[of _ "[]"]) simp
next
  case (batch_fatal r0 b bs acc)
  then show ?case by (intro exI[of _ "[]"]) auto
next
  case (batch_skip r0 b bs acc evs res)
  then obtain rs where rs: "\<forall>rr \<in> set rs. \<not> failed (fst rr)"
    "case res of
         Inr fl \<Rightarrow>
           length rs = length bs
           \<and> evs = concat (map2 (step_events forced) bs rs)
           \<and> fl = acc @ map fst (filter (recoverable forced) (zip bs rs))
       | Inl err \<Rightarrow>
           err = currentBranchFailure \<and> length rs < length bs
           \<and> (\<exists>r0. failed r0 \<and>
                 evs = concat (map2 (step_events forced) (take (length rs) bs) rs)
                       @ [Ran GitRevParseHead r0])" by blast
  with batch_skip(1,2) show ?case
    by (intro exI[of _ "(r0, r0) # rs"])
       (cases res; auto simp: step_events_def recoverable_def)
next
  case (batch_unmerged r0 b r bs acc evs res)
  then obtain rs where rs: "\<forall>rr \<in> set rs. \<not> failed (fst rr)"
    "case res of
         Inr fl \<Rightarrow>
           length rs = length bs
           \<and> evs = concat (map2 (step_events forced) bs rs)
           \<and> fl = (acc @ [b]) @ map fst (filter (recoverable forced) (zip bs rs))
       | Inl err \<Rightarrow>
           err = currentBranchFailure \<and> length rs < length bs
           \<and> (\<exists>r0. failed r0 \<and>
                 evs = concat (map2 (step_events forced) (take (length rs) bs) rs)
                       @ [Ran GitRevParseHead r0])" by blast
  with batch_unmerged(1-5) show ?case
    by (intro exI[of _ "(r0, r) # rs"])
       (cases res; auto simp: step_events_def recoverable_def report_def)
next
  case (batch_error r0 b r bs acc evs res)
  then obtain rs where rs: "\<forall>rr \<in> set rs. \<not> failed (fst rr)"
    "case res of
         Inr fl \<Rightarrow>
           length rs = length bs
           \<and> evs = concat (map2 (step_events forced) bs rs)
           \<and> fl = acc @ map fst (filter (recoverable forced) (zip bs rs))
       | Inl err \<Rightarrow>
           err = currentBranchFailure \<and> length rs < length bs
           \<and> (\<exists>r0. failed r0 \<and>
                 evs = concat (map2 (step_events forced) (take (length rs) bs) rs)
                       @ [Ran GitRevParseHead r0])" by blast
  with batch_error(1-4) show ?case
    by (intro exI[of _ "(r0, r) # rs"])
       (cases res; auto simp: step_events_def recoverable_def report_def)
next
  case (batch_deleted r0 b r bs acc evs res)
  then obtain rs where rs: "\<forall>rr \<in> set rs. \<not> failed (fst rr)"
    "case res of
         Inr fl \<Rightarrow>
           length rs = length bs
           \<and> evs = concat (map2 (step_events forced) bs rs)
           \<and> fl = acc @ map fst (filter (recoverable forced) (zip bs rs))
       | Inl err \<Rightarrow>
           err = currentBranchFailure \<and> length rs < length bs
           \<and> (\<exists>r0. failed r0 \<and>
                 evs = concat (map2 (step_events forced) (take (length rs) bs) rs)
                       @ [Ran GitRevParseHead r0])" by blast
  with batch_deleted(1-3) show ?case
    by (intro exI[of _ "(r0, r) # rs"])
       (cases res; auto simp: step_events_def recoverable_def report_def)
qed

lemma deleteBranches_blocks:
  assumes "deleteBranches E bs forced st = (res, st')"
  shows "\<exists>rs. (\<forall>rr \<in> set rs. \<not> failed (fst rr)) \<and>
      (case res of
         Inr failedBranches \<Rightarrow>
           length rs = length bs
           \<and> trace st' = trace st @ concat (map2 (step_events forced) bs rs)
           \<and> failedBranches = map fst (filter (recoverable forced) (zip bs rs))
       | Inl err \<Rightarrow>
           err = currentBranchFailure \<and> length rs < length bs
           \<and> (\<exists>r0. failed r0 \<and>
                 trace st' = trace st @ concat (map2 (step_events forced) (take (length rs) bs) rs)
                               @ [Ran GitRevParseHead r0]))"
proof -
  from deleteBranches_batch[OF assms] obtain evs where
    evs: "trace st' = trace st @ evs" "batch forced bs [] evs res" by blast
  from batch_blocks[OF evs(2)] evs(1) show ?thesis
    by (cases res) auto
qed

text \<open>
  Claim C5. A pass over a batch goes through the names in order, and what it does for a
  name does not depend on what happened to the names before it: it reads the current
  branch, and then it either skips the name or runs the deletion subprocess for it and
  reports the result. When the deletion fails the report goes to the error stream and the
  pass goes on with the next name; the name is recorded for the forced retry exactly when
  the pass is safe and the error text contains \<^verbatim>\<open>not fully merged\<close>. A pass that returns a
  list has done this for every name of the batch, and the list holds the recorded names, in
  order. A pass returns an error only when a read of the current branch fails: this read is
  then the last thing it did, after the complete steps of the names before it, and nothing
  is done for the names after it.
\<close>

theorem C5_failures_do_not_abort_the_batch:
  "deleteBranches E bs forced st = (res, st') \<longrightarrow>
   (\<exists>rs. (\<forall>rr \<in> set rs. \<not> failed (fst rr)) \<and>
      (case res of
         Inr failedBranches \<Rightarrow>
           length rs = length bs
           \<and> trace st' = trace st @ concat (map2 (step_events forced) bs rs)
           \<and> failedBranches = map fst (filter (recoverable forced) (zip bs rs))
       | Inl err \<Rightarrow>
           err = currentBranchFailure \<and> length rs < length bs
           \<and> (\<exists>r0. failed r0 \<and>
                 trace st' = trace st @ concat (map2 (step_events forced) (take (length rs) bs) rs)
                               @ [Ran GitRevParseHead r0])))"
  by (rule impI) (rule deleteBranches_blocks)

theorem C5_witness:
  "deleteBranches scripted [str ''alpha'', str ''beta'', str ''gamma''] False (initial mixed_world)
     = (Inr [str ''alpha''], mixed_final)
   \<and> (\<exists>rs. (\<forall>rr \<in> set rs. \<not> failed (fst rr))
          \<and> length rs = length [str ''alpha'', str ''beta'', str ''gamma'']
          \<and> mixed_trace = concat (map2 (step_events False) [str ''alpha'', str ''beta'', str ''gamma''] rs)
          \<and> [str ''alpha''] = map fst (filter (recoverable False)
                                        (zip [str ''alpha'', str ''beta'', str ''gamma''] rs)))
   \<and> deleteBranches scripted [str ''alpha'', str ''beta''] False (initial fatal_world)
     = (Inl currentBranchFailure, fatal_final)
   \<and> (\<exists>rs. (\<forall>rr \<in> set rs. \<not> failed (fst rr))
          \<and> length rs < length [str ''alpha'', str ''beta'']
          \<and> (\<exists>r0. failed r0 \<and>
                fatal_trace = concat (map2 (step_events False)
                                        (take (length rs) [str ''alpha'', str ''beta'']) rs)
                              @ [Ran GitRevParseHead r0]))"
proof -
  have e: "deleteBranches scripted [str ''alpha'', str ''beta'', str ''gamma''] False (initial mixed_world)
     = (Inr [str ''alpha''], mixed_final)" unfolding mixed_final_def by code_simp
  have f: "deleteBranches scripted [str ''alpha'', str ''beta''] False (initial fatal_world)
     = (Inl currentBranchFailure, fatal_final)" unfolding fatal_final_def by code_simp
  have t: "trace (initial mixed_world) = []" "trace mixed_final = mixed_trace"
    "trace (initial fatal_world) = []" "trace fatal_final = fatal_trace"
    by (simp_all add: initial_def mixed_final_def fatal_final_def)
  note a = C5_failures_do_not_abort_the_batch[of scripted "[str ''alpha'', str ''beta'', str ''gamma'']" False
      "initial mixed_world" "Inr [str ''alpha'']" mixed_final, THEN mp, OF e]
  note b = C5_failures_do_not_abort_the_batch[of scripted "[str ''alpha'', str ''beta'']" False
      "initial fatal_world" "Inl currentBranchFailure" fatal_final, THEN mp, OF f]
  from a have 1: "\<exists>rs. (\<forall>rr \<in> set rs. \<not> failed (fst rr))
          \<and> length rs = length [str ''alpha'', str ''beta'', str ''gamma'']
          \<and> mixed_trace = concat (map2 (step_events False) [str ''alpha'', str ''beta'', str ''gamma''] rs)
          \<and> [str ''alpha''] = map fst (filter (recoverable False)
                                        (zip [str ''alpha'', str ''beta'', str ''gamma''] rs))"
    by (simp only: sum.case t append_Nil)
  from b have 2: "\<exists>rs. (\<forall>rr \<in> set rs. \<not> failed (fst rr))
          \<and> length rs < length [str ''alpha'', str ''beta'']
          \<and> (\<exists>r0. failed r0 \<and>
                fatal_trace = concat (map2 (step_events False)
                                        (take (length rs) [str ''alpha'', str ''beta'']) rs)
                              @ [Ran GitRevParseHead r0])"
    by (simp only: sum.case t append_Nil simp_thms)
  from e 1 f 2 show ?thesis by (intro conjI)
qed










end
